theory Spec2Isabelle
  imports Complex_Main
begin

section \<open>Python values, exceptions and HTTP outcomes\<close>

text \<open>
  The service of \<^verbatim>\<open>src/main.py\<close> is a FastAPI application with three endpoints:
  \<^verbatim>\<open>GET /scrape/{username}\<close> (\<^verbatim>\<open>get_instagram_profile\<close>),
  \<^verbatim>\<open>GET /proxy-image/\<close> (\<^verbatim>\<open>proxy_image\<close>) and \<^verbatim>\<open>GET /health\<close>
  (\<^verbatim>\<open>health_check\<close>). A handler either returns a value (answered with status 200) or
  raises an exception; a raise is modelled as the left injection of a sum.

  The exception classes the handlers distinguish, with the subclass relation of Python:
  \<^verbatim>\<open>ProfileNotExistsException\<close> and \<^verbatim>\<open>ConnectionException\<close> are subclasses of
  \<^verbatim>\<open>InstaloaderException\<close>, which like \<^verbatim>\<open>KeyError\<close>, \<^verbatim>\<open>HTTPException\<close> and
  \<^verbatim>\<open>RateLimitExceeded\<close> is a subclass of \<^verbatim>\<open>Exception\<close>. The constructor
  \<open>InstaloaderException\<close> stands for every other class of the upstream library, the
  constructor \<open>Exception\<close> for every other subclass of \<^verbatim>\<open>Exception\<close>. The string an
  exception carries is its message.

  \<^verbatim>\<open>str(e)\<close> of a caught exception is kept symbolic (\<open>Str e\<close>): how the framework
  prints an \<^verbatim>\<open>HTTPException\<close> is not part of the source.
\<close>

datatype exn =
    ProfileNotExistsException string
  | ConnectionException string
  | InstaloaderException string
  | KeyError string
  | Exception string
  | RateLimitExceeded
  | HTTPException nat detail
and detail =
    Dict string pystr     \<comment> \<open>\<^verbatim>\<open>{"error": ..., "details": ...}\<close>\<close>
  | Plain string          \<comment> \<open>a bare string as detail\<close>
and pystr =
    Lit string
  | Str exn               \<comment> \<open>\<^verbatim>\<open>str(e)\<close>\<close>

fun is_ConnectionException :: "exn \<Rightarrow> bool" where
  "is_ConnectionException (ConnectionException m) = True"
| "is_ConnectionException e = False"

fun is_InstaloaderException :: "exn \<Rightarrow> bool" where
  "is_InstaloaderException (ProfileNotExistsException m) = True"
| "is_InstaloaderException (ConnectionException m) = True"
| "is_InstaloaderException (InstaloaderException m) = True"
| "is_InstaloaderException e = False"

fun is_ProfileNotExistsException :: "exn \<Rightarrow> bool" where
  "is_ProfileNotExistsException (ProfileNotExistsException m) = True"
| "is_ProfileNotExistsException e = False"

text \<open>
  The status of the HTTP response the framework sends for a handler's outcome: 200 for a
  returned value, the status of a raised \<^verbatim>\<open>HTTPException\<close>, 429 for the limiter's
  \<^verbatim>\<open>RateLimitExceeded\<close>, and 500 for any other exception that leaves the handler.
\<close>

fun status_code :: "exn + 'a \<Rightarrow> nat" where
  "status_code (Inr v) = 200"
| "status_code (Inl (HTTPException s d)) = s"
| "status_code (Inl RateLimitExceeded) = 429"
| "status_code (Inl e) = 500"

text \<open>Python values of an attribute whose type the source does not fix, and their truth value.\<close>

datatype py_value = PyNone | PyInt int | PyStr string

fun truthy :: "py_value \<Rightarrow> bool" where
  "truthy PyNone = False"
| "truthy (PyInt i) = (i \<noteq> 0)"
| "truthy (PyStr s) = (s \<noteq> [])"

subsection \<open>\<^verbatim>\<open>str.lower\<close>\<close>

text \<open>
  Usernames are modelled as ASCII strings; on these \<^verbatim>\<open>str.lower\<close> maps \<^verbatim>\<open>A\<close>..\<^verbatim>\<open>Z\<close> to
  \<^verbatim>\<open>a\<close>..\<^verbatim>\<open>z\<close> and leaves every other character alone.
\<close>

definition lower_char :: "char \<Rightarrow> char" where
  "lower_char c =
     (if (65::nat) \<le> of_char c \<and> of_char c \<le> (90::nat)
      then char_of (of_char c + (32::nat)) else c)"

definition lower :: "string \<Rightarrow> string" where
  "lower s = map lower_char s"

subsection \<open>Models\<close>

text \<open>The upstream library's profile object, with the attributes the handler reads.\<close>

record Profile =
  userid :: py_value
  p_username :: string
  p_followers :: int
  followees :: int
  mediacount :: int
  profile_pic_url :: string
  biography :: "string option"
  p_full_name :: "string option"

record ProfileData =
  username :: string
  followers :: int
  following :: int
  posts_count :: int
  dp_url :: string
  bio :: "string option"
  full_name :: "string option"

section \<open>The profile cache\<close>

text \<open>
  Modelled from the spec: the class \<^verbatim>\<open>cachetools.TTLCache\<close> behind
  \<^verbatim>\<open>profile_cache = TTLCache(maxsize=1000, ttl=3600)\<close> is not part of the source. The
  model follows sections 3 and 4.3 of the specification: an entry is keyed by the
  lower-cased username and carries an expiry timestamp, insertion time plus the TTL; an
  entry past its expiry is treated as absent even while it still occupies a slot; the
  entry count is capped, and inserting a new key into a full cache evicts by recency
  (least recently used first). Expired entries are purged lazily, on insertion and when the
  size is read. The entries are kept in recency order, least recently used first.
\<close>

record entry =
  key :: string
  val :: ProfileData
  expires :: real

record TTLCache =
  maxsize :: nat
  ttl :: real
  entries :: "entry list"

definition TTLCache_new :: "nat \<Rightarrow> real \<Rightarrow> TTLCache" where
  "TTLCache_new m t = \<lparr>maxsize = m, ttl = t, entries = []\<rparr>"

definition expire :: "real \<Rightarrow> TTLCache \<Rightarrow> TTLCache" where
  "expire now c = c\<lparr>entries := filter (\<lambda>e. now < expires e) (entries c)\<rparr>"

definition lookup :: "TTLCache \<Rightarrow> string \<Rightarrow> entry option" where
  "lookup c k = find (\<lambda>e. key e = k) (entries c)"

text \<open>\<^verbatim>\<open>key in cache\<close>: present and not expired; the cache is not changed.\<close>

definition contains :: "real \<Rightarrow> TTLCache \<Rightarrow> string \<Rightarrow> bool" where
  "contains now c k = (case lookup c k of None \<Rightarrow> False | Some e \<Rightarrow> now < expires e)"

text \<open>
  \<^verbatim>\<open>cache[key]\<close>: the value of a live entry, which becomes the most recently used one;
  \<^verbatim>\<open>KeyError\<close> for a missing or expired key.
\<close>

definition getitem :: "real \<Rightarrow> TTLCache \<Rightarrow> string \<Rightarrow> (exn + ProfileData) \<times> TTLCache" where
  "getitem now c k =
     (case lookup c k of
        None \<Rightarrow> (Inl (KeyError k), c)
      | Some e \<Rightarrow>
          if now < expires e
          then (Inr (val e), c\<lparr>entries := filter (\<lambda>x. key x \<noteq> k) (entries c) @ [e]\<rparr>)
          else (Inl (KeyError k), c))"

text \<open>Eviction under pressure: drop least recently used entries until one more entry fits.\<close>

fun evict :: "nat \<Rightarrow> entry list \<Rightarrow> entry list" where
  "evict m [] = []"
| "evict m (e # es) = (if m < length (e # es) + 1 then evict m es else e # es)"

text \<open>
  \<^verbatim>\<open>cache[key] = value\<close>: purge what has expired, make room if the key is new, and store
  the value as the most recently used entry, expiring one TTL from now.
\<close>

definition setitem :: "real \<Rightarrow> TTLCache \<Rightarrow> string \<Rightarrow> ProfileData \<Rightarrow> TTLCache" where
  "setitem now c k v =
     (let c1 = expire now c;
          es = (case lookup c1 k of None \<Rightarrow> evict (maxsize c1) (entries c1)
                                  | Some e \<Rightarrow> entries c1)
      in c1\<lparr>entries := filter (\<lambda>x. key x \<noteq> k) es
                          @ [\<lparr>key = k, val = v, expires = now + ttl c1\<rparr>]\<rparr>)"

text \<open>\<^verbatim>\<open>len(cache)\<close>: the number of live entries; the expired ones are purged.\<close>

definition len :: "real \<Rightarrow> TTLCache \<Rightarrow> nat \<times> TTLCache" where
  "len now c = (length (entries (expire now c)), expire now c)"

section \<open>The rate limiter\<close>

text \<open>
  Modelled from the spec: the class \<^verbatim>\<open>slowapi.Limiter\<close> behind
  \<^verbatim>\<open>limiter = Limiter(key_func=get_remote_address)\<close> and the decorator
  \<^verbatim>\<open>@limiter.limit("10/minute")\<close> is not part of the source. The model follows sections 3
  and 4.2 of the specification: a window per client identifier (the source address), created
  lazily on the client's first request, counting the requests of the current window; the
  count starts again once the window has elapsed; a request beyond the quota of its window
  is rejected.
\<close>

record RateLimitWindow =
  window_start :: real
  count :: nat

type_synonym Limiter = "string \<Rightarrow> RateLimitWindow option"

definition limit_amount :: nat where
  "limit_amount = 10"

definition limit_period :: real where
  "limit_period = 60"

definition hit :: "real \<Rightarrow> Limiter \<Rightarrow> string \<Rightarrow> bool \<times> Limiter" where
  "hit now lm client =
     (case lm client of
        None \<Rightarrow> (True, lm(client \<mapsto> \<lparr>window_start = now, count = 1\<rparr>))
      | Some w \<Rightarrow>
          if window_start w + limit_period \<le> now
          then (True, lm(client \<mapsto> \<lparr>window_start = now, count = 1\<rparr>))
          else (count w + 1 \<le> limit_amount, lm(client \<mapsto> w\<lparr>count := count w + 1\<rparr>)))"

section \<open>The endpoints\<close>

text \<open>The two module-level objects the handlers share.\<close>

record state =
  profile_cache :: TTLCache
  limiter :: Limiter

definition initial_state :: state where
  "initial_state = \<lparr>profile_cache = TTLCache_new 1000 3600, limiter = Map.empty\<rparr>"

subsection \<open>\<^verbatim>\<open>GET /scrape/{username}\<close>\<close>

text \<open>
  The clocks read while one request is handled: the limiter's, when the request arrives, and
  the cache's, which the cache reads on each of its operations: at the membership test
  (line 92), at the read (line 94) and at the store (line 126).
\<close>

record clock =
  at_limit :: real
  at_in :: real
  at_get :: real
  at_set :: real

text \<open>
  The body of the outer \<^verbatim>\<open>try\<close> (lines 91 to 128). \<open>from_username\<close> is the upstream
  call \<^verbatim>\<open>instaloader.Profile.from_username(L.context, _)\<close>, which returns a profile or
  raises; \<open>clk\<close> holds the clock readings of the request. The result is the outcome,
  the cache afterwards and the list of the usernames the upstream was asked for.
  \<^verbatim>\<open>get_instagram_client()\<close> only configures the upstream client, and the logging calls
  only write to the log; neither is modelled. The attributes of the profile have the types
  the fields of \<^verbatim>\<open>ProfileData\<close> declare, so building the record always succeeds.
\<close>

definition try_body ::
  "(string \<Rightarrow> exn + Profile) \<Rightarrow> clock \<Rightarrow> TTLCache \<Rightarrow> string
     \<Rightarrow> (exn + ProfileData) \<times> TTLCache \<times> string list" where
  "try_body from_username clk c uname =
     (if contains (at_in clk) c (lower uname)
      then (case getitem (at_get clk) c (lower uname) of (r, c') \<Rightarrow> (r, c', []))
      else
        (case from_username (lower uname) of
           Inl e \<Rightarrow>
             if is_ProfileNotExistsException e
             then (Inl (HTTPException 404
                          (Dict ''Profile not found'' (Lit (''@'' @ uname @ '' doesn't exist'')))),
                   c, [lower uname])
             else (Inl e, c, [lower uname])
         | Inr profile \<Rightarrow>
             if \<not> truthy (userid profile)
             then (Inl (HTTPException 404
                          (Dict ''Profile not found'' (Lit ''Invalid data from Instagram''))),
                   c, [lower uname])
             else
               (let profile_data =
                      \<lparr>username = p_username profile,
                       followers = p_followers profile,
                       following = followees profile,
                       posts_count = mediacount profile,
                       dp_url = profile_pic_url profile,
                       bio = biography profile,
                       full_name = p_full_name profile\<rparr>
                in (Inr profile_data, setitem (at_set clk) c (lower uname) profile_data,
                    [lower uname]))))"

text \<open>
  The three \<^verbatim>\<open>except\<close> clauses of the outer \<^verbatim>\<open>try\<close> (lines 130 to 147), in their
  order; the last one, \<^verbatim>\<open>except Exception\<close>, takes every exception left.
\<close>

definition except_clauses :: "exn \<Rightarrow> exn" where
  "except_clauses e =
     (if is_ConnectionException e
      then HTTPException 503 (Dict ''Instagram connection failed'' (Str e))
      else if is_InstaloaderException e
      then HTTPException 500 (Dict ''Instagram fetch failed'' (Str e))
      else HTTPException 500 (Dict ''Internal error'' (Str e)))"

definition get_instagram_profile_body ::
  "(string \<Rightarrow> exn + Profile) \<Rightarrow> clock \<Rightarrow> TTLCache \<Rightarrow> string
     \<Rightarrow> (exn + ProfileData) \<times> TTLCache \<times> string list" where
  "get_instagram_profile_body from_username clk c uname =
     (case try_body from_username clk c uname of
        (Inl e, c', qs) \<Rightarrow> (Inl (except_clauses e), c', qs)
      | (Inr d, c', qs) \<Rightarrow> (Inr d, c', qs))"

text \<open>
  The handler as decorated with \<^verbatim>\<open>@limiter.limit("10/minute")\<close>: the limiter is asked
  first, and a rejected request never enters the body.
\<close>

definition get_instagram_profile ::
  "(string \<Rightarrow> exn + Profile) \<Rightarrow> clock \<Rightarrow> string \<Rightarrow> state \<Rightarrow> string
     \<Rightarrow> (exn + ProfileData) \<times> state \<times> string list" where
  "get_instagram_profile from_username clk client st uname =
     (case hit (at_limit clk) (limiter st) client of
        (False, lm') \<Rightarrow> (Inl RateLimitExceeded, st\<lparr>limiter := lm'\<rparr>, [])
      | (True, lm') \<Rightarrow>
          (case get_instagram_profile_body from_username clk (profile_cache st) uname of
             (r, c', qs) \<Rightarrow> (r, \<lparr>profile_cache = c', limiter = lm'\<rparr>, qs)))"

subsection \<open>\<^verbatim>\<open>GET /proxy-image/\<close>\<close>

text \<open>
  \<open>client_get\<close> is \<^verbatim>\<open>httpx.AsyncClient().get(url, headers=headers)\<close>: it returns the
  upstream's response, whatever its status, or raises (network error, timeout, bad URL).
  Header names compare without regard to case.
\<close>

record Response =
  r_status_code :: nat
  r_headers :: "(string \<times> string) list"
  r_content :: string

record StreamingResponse =
  s_status_code :: nat
  media_type :: string
  s_content :: string

definition headers_get :: "(string \<times> string) list \<Rightarrow> string \<Rightarrow> string \<Rightarrow> string" where
  "headers_get hs name dflt =
     (case map_of (map (\<lambda>(k, v). (lower k, v)) hs) (lower name) of
        None \<Rightarrow> dflt | Some v \<Rightarrow> v)"

definition proxy_image :: "(string \<Rightarrow> exn + Response) \<Rightarrow> string \<Rightarrow> exn + StreamingResponse" where
  "proxy_image client_get url =
     (case client_get url of
        Inl e \<Rightarrow> Inl (HTTPException 500 (Plain ''Image fetch failed''))
      | Inr resp \<Rightarrow>
          Inr \<lparr>s_status_code = 200,
               media_type = headers_get (r_headers resp) ''Content-Type'' ''image/jpeg'',
               s_content = r_content resp\<rparr>)"

text \<open>The status of the response sent for an outcome of \<open>proxy_image\<close>.\<close>

definition proxy_status :: "exn + StreamingResponse \<Rightarrow> nat" where
  "proxy_status r = (case r of Inr s \<Rightarrow> s_status_code s | Inl e \<Rightarrow> status_code r)"

subsection \<open>\<^verbatim>\<open>GET /health\<close>\<close>

record Health =
  h_status :: string
  timestamp :: real
  cache_size :: nat

definition health_check :: "real \<Rightarrow> real \<Rightarrow> state \<Rightarrow> Health \<times> state" where
  "health_check wall now st =
     (case len now (profile_cache st) of
        (n, c') \<Rightarrow> (\<lparr>h_status = ''healthy'', timestamp = wall, cache_size = n\<rparr>,
                    st\<lparr>profile_cache := c'\<rparr>))"

section \<open>Example environments\<close>

text \<open>Concrete upstreams and inputs, used to run the handlers on the scenarios of section 8.\<close>

definition all_at :: "real \<Rightarrow> clock" where
  "all_at t = \<lparr>at_limit = t, at_in = t, at_get = t, at_set = t\<rparr>"

definition upstream_missing :: "string \<Rightarrow> exn + Profile" where
  "upstream_missing u = Inl (ProfileNotExistsException ''Profile does not exist.'')"

definition nasa_profile :: Profile where
  "nasa_profile =
     \<lparr>userid = PyInt 528817151,
      p_username = ''nasa'',
      p_followers = 95000000,
      followees = 60,
      mediacount = 4200,
      profile_pic_url = ''https://.../nasa.jpg'',
      biography = Some ''Explore the universe.'',
      p_full_name = Some ''NASA''\<rparr>"

definition upstream_nasa :: "string \<Rightarrow> exn + Profile" where
  "upstream_nasa u =
     (if u = ''nasa'' then Inr nasa_profile
      else Inl (ProfileNotExistsException ''Profile does not exist.''))"

definition upstream_no_userid :: "string \<Rightarrow> exn + Profile" where
  "upstream_no_userid u = Inr (nasa_profile\<lparr>userid := PyNone\<rparr>)"

definition upstream_down :: "string \<Rightarrow> exn + Profile" where
  "upstream_down u = Inl (ConnectionException ''Connection refused'')"

definition upstream_login :: "string \<Rightarrow> exn + Profile" where
  "upstream_login u = Inl (InstaloaderException ''Login required'')"

definition upstream_broken :: "string \<Rightarrow> exn + Profile" where
  "upstream_broken u = Inl (Exception ''unexpected'')"

definition image_404 :: "string \<Rightarrow> exn + Response" where
  "image_404 url =
     Inr \<lparr>r_status_code = 404,
          r_headers = [(''content-type'', ''text/html'')],
          r_content = ''Not Found''\<rparr>"

definition image_timeout :: "string \<Rightarrow> exn + Response" where
  "image_timeout url = Inl (Exception ''ReadTimeout'')"

section \<open>Well-formed caches and the states the service reaches\<close>

text \<open>
  A cache is well formed when no key occurs twice, the entry count is within the capacity,
  and the capacity is positive.
\<close>

definition invar :: "TTLCache \<Rightarrow> bool" where
  "invar c = (distinct (map key (entries c)) \<and> length (entries c) \<le> maxsize c \<and> 0 < maxsize c)"

text \<open>
  A request to the service: the endpoint, its arguments, and what the outside world does
  during it (the upstream's behaviour, the clocks, the client's address).
\<close>

datatype request =
    Scrape "string \<Rightarrow> exn + Profile" clock string string
  | ProxyImage "string \<Rightarrow> exn + Response" string
  | HealthCheck real real

fun step :: "state \<Rightarrow> request \<Rightarrow> state" where
  "step st (Scrape from_username clk client uname) =
     fst (snd (get_instagram_profile from_username clk client st uname))"
| "step st (ProxyImage client_get url) = st"
| "step st (HealthCheck wall now) = snd (health_check wall now st)"

definition serve :: "request list \<Rightarrow> state" where
  "serve rs = foldl step initial_state rs"

text \<open>The record the handler builds from an upstream profile (lines 115 to 123).\<close>

abbreviation profile_data_of :: "Profile \<Rightarrow> ProfileData" where
  "profile_data_of p \<equiv>
     \<lparr>username = p_username p, followers = p_followers p, following = followees p,
      posts_count = mediacount p, dp_url = profile_pic_url p, bio = biography p,
      full_name = p_full_name p\<rparr>"




text \<open>
  A request whose clock readings that matter to a cache entry lie before the time \<open>E\<close>:
  the membership test and the store of a profile request, the size reading of a health
  check.
\<close>

fun before :: "real \<Rightarrow> request \<Rightarrow> bool" where
  "before E (Scrape from_username clk client uname) = (at_in clk < E \<and> at_set clk < E)"
| "before E (ProxyImage client_get url) = True"
| "before E (HealthCheck wall now) = (now < E)"

text \<open>The entry \<open>e\<close> is in the list with at most \<open>j\<close> entries after it.\<close>

abbreviation near_end :: "entry \<Rightarrow> nat \<Rightarrow> entry list \<Rightarrow> bool" where
  "near_end e j es \<equiv> (\<exists>pre post. es = pre @ e # post \<and> length post \<le> j)"

text \<open>A cache filled to the capacity of the service's cache, with 1000 distinct keys.\<close>

definition full_cache :: TTLCache where
  "full_cache =
     \<lparr>maxsize = 1000, ttl = 3600,
      entries = map (\<lambda>i. \<lparr>key = replicate (Suc i) (CHR ''a''),
                            val = profile_data_of nasa_profile,
                            expires = 3600\<rparr>) [0..<1000]\<rparr>"

text \<open>
  Requests that follow a first profile request of the client \<^verbatim>\<open>198.51.100.7\<close> at time 0:
  a health check, a profile request of another client, an image request, and twelve more
  profile requests of the same client before time 60.
\<close>

definition burst_rest :: "request list" where
  "burst_rest =
     [HealthCheck 1 1,
      Scrape upstream_nasa (all_at 2) ''203.0.113.9'' ''nasa'',
      ProxyImage image_404 ''https://example.com/img.jpg'']
     @ map (\<lambda>t. Scrape upstream_down (all_at t) ''198.51.100.7'' ''NASA'')
         [5, 10, 15, 20, 25, 30, 35, 40, 45, 50, 55, 59]"

text \<open>
  An upstream that knows every username, and a thousand profile requests at time 1, each
  for a username of its own and from a client of its own.
\<close>

definition upstream_any :: "string \<Rightarrow> exn + Profile" where
  "upstream_any u = Inr (nasa_profile\<lparr>p_username := u\<rparr>)"

definition crowd_request :: "nat \<Rightarrow> request" where
  "crowd_request i =
     Scrape upstream_any (all_at 1) (replicate (Suc i) (CHR ''a'')) (replicate (Suc i) (CHR ''a''))"

definition crowd :: "request list" where
  "crowd = map crowd_request [0..<1000]"

text \<open>The cache entries that the first fetch of \<^verbatim>\<open>nasa\<close> and the crowd's requests store.\<close>

definition nasa_entry :: entry where
  "nasa_entry =
     \<lparr>key = ''nasa'', val = profile_data_of (nasa_profile\<lparr>p_username := ''nasa''\<rparr>),
      expires = 3600\<rparr>"

definition crowd_entry :: "nat \<Rightarrow> entry" where
  "crowd_entry i =
     \<lparr>key = replicate (Suc i) (CHR ''a''),
      val = profile_data_of (nasa_profile\<lparr>p_username := replicate (Suc i) (CHR ''a'')\<rparr>),
      expires = 3601\<rparr>"

text \<open>The service after a first fetch of \<^verbatim>\<open>nasa\<close> at time 0.\<close>

definition after_first :: state where
  "after_first = step initial_state (Scrape upstream_any (all_at 0) ''198.51.100.7'' ''nasa'')"

section \<open>Error translation of the profile endpoint\<close>

lemma try_body_miss_raise:
  "\<not> contains (at_in clk) c (lower u) \<Longrightarrow> from_username (lower u) = Inl e \<Longrightarrow>
   try_body from_username clk c u =
     (if is_ProfileNotExistsException e
      then (Inl (HTTPException 404
                   (Dict ''Profile not found'' (Lit (''@'' @ u @ '' doesn't exist'')))),
            c, [lower u])
      else (Inl e, c, [lower u]))"
  by (simp add: try_body_def)

lemma try_body_miss_profile:
  "\<not> contains (at_in clk) c (lower u) \<Longrightarrow> from_username (lower u) = Inr p \<Longrightarrow>
   try_body from_username clk c u =
     (if \<not> truthy (userid p)
      then (Inl (HTTPException 404
                   (Dict ''Profile not found'' (Lit ''Invalid data from Instagram''))),
            c, [lower u])
      else (Inr \<lparr>username = p_username p, followers = p_followers p,
                 following = followees p, posts_count = mediacount p,
                 dp_url = profile_pic_url p, bio = biography p,
                 full_name = p_full_name p\<rparr>,
            setitem (at_set clk) c (lower u)
              \<lparr>username = p_username p, followers = p_followers p,
               following = followees p, posts_count = mediacount p,
               dp_url = profile_pic_url p, bio = biography p,
               full_name = p_full_name p\<rparr>,
            [lower u]))"
  by (simp add: try_body_def Let_def)

text \<open>
  C1. Where the upstream signals that the profile does not exist, and where the upstream's
  record has an empty \<open>userid\<close>, the handler raises the 404 inside the outer \<^verbatim>\<open>try\<close>, whose
  last clause \<^verbatim>\<open>except Exception\<close> catches it: the request for
  \<^verbatim>\<open>thisuserdoesnotexist123456\<close> is answered with status 500 and the body
  \<^verbatim>\<open>Internal error\<close>, not with 404 and \<^verbatim>\<open>Profile not found\<close>.
\<close>

theorem C1_not_found_answered_500:
  "fst (get_instagram_profile upstream_missing (all_at 0) ''198.51.100.7'' initial_state
          ''thisuserdoesnotexist123456'')
     = Inl (HTTPException 500
              (Dict ''Internal error''
                 (Str (HTTPException 404
                         (Dict ''Profile not found''
                            (Lit ''@thisuserdoesnotexist123456 doesn't exist''))))))
   \<and> status_code (fst (get_instagram_profile upstream_missing (all_at 0) ''198.51.100.7'' initial_state
                         ''thisuserdoesnotexist123456'')) = 500
   \<and> fst (get_instagram_profile upstream_no_userid (all_at 0) ''198.51.100.7'' initial_state ''nasa'')
     = Inl (HTTPException 500
              (Dict ''Internal error''
                 (Str (HTTPException 404
                         (Dict ''Profile not found'' (Lit ''Invalid data from Instagram''))))))"
  by code_simp

text \<open>
  C3. On a request that reaches the upstream, a connection failure is answered with 503 and
  \<^verbatim>\<open>Instagram connection failed\<close>, any other failure of the upstream library (other than
  the profile's nonexistence) with 500 and \<^verbatim>\<open>Instagram fetch failed\<close>, and any other
  exception with 500 and \<^verbatim>\<open>Internal error\<close>. Whatever the cache, the upstream and the
  username, an exception that leaves the handler body is an \<^verbatim>\<open>HTTPException\<close> with status
  500 or 503 whose body carries the caught exception's text as its details.
\<close>

theorem C3_error_translation:
  "(\<not> contains (at_in clk) c (lower u) \<and> from_username (lower u) = Inl e \<and>
    \<not> is_ProfileNotExistsException e \<longrightarrow>
      fst (get_instagram_profile_body from_username clk c u) =
        (if is_ConnectionException e
         then Inl (HTTPException 503 (Dict ''Instagram connection failed'' (Str e)))
         else if is_InstaloaderException e
         then Inl (HTTPException 500 (Dict ''Instagram fetch failed'' (Str e)))
         else Inl (HTTPException 500 (Dict ''Internal error'' (Str e)))))
   \<and> (\<forall>x. fst (get_instagram_profile_body from_username clk c u) = Inl x \<longrightarrow>
          (\<exists>s err e'. x = HTTPException s (Dict err (Str e')) \<and> (s = 500 \<or> s = 503)))"
proof (intro conjI impI allI)
  assume h: "\<not> contains (at_in clk) c (lower u) \<and> from_username (lower u) = Inl e \<and>
    \<not> is_ProfileNotExistsException e"
  then have "try_body from_username clk c u = (Inl e, c, [lower u])"
    by (simp add: try_body_miss_raise)
  then show "fst (get_instagram_profile_body from_username clk c u) =
        (if is_ConnectionException e
         then Inl (HTTPException 503 (Dict ''Instagram connection failed'' (Str e)))
         else if is_InstaloaderException e
         then Inl (HTTPException 500 (Dict ''Instagram fetch failed'' (Str e)))
         else Inl (HTTPException 500 (Dict ''Internal error'' (Str e))))"
    by (simp add: get_instagram_profile_body_def except_clauses_def)
next
  fix x
  assume "fst (get_instagram_profile_body from_username clk c u) = Inl x"
  then show "\<exists>s err e'. x = HTTPException s (Dict err (Str e')) \<and> (s = 500 \<or> s = 503)"
    by (auto simp: get_instagram_profile_body_def except_clauses_def
             split: prod.splits sum.splits if_splits)
qed

theorem C3_error_translation_witness:
  "fst (get_instagram_profile_body upstream_down (all_at 0) (TTLCache_new 1000 3600) ''NASA'')
     = Inl (HTTPException 503
              (Dict ''Instagram connection failed''
                 (Str (ConnectionException ''Connection refused''))))
   \<and> fst (get_instagram_profile_body upstream_login (all_at 0) (TTLCache_new 1000 3600) ''NASA'')
     = Inl (HTTPException 500
              (Dict ''Instagram fetch failed'' (Str (InstaloaderException ''Login required''))))
   \<and> fst (get_instagram_profile_body upstream_broken (all_at 0) (TTLCache_new 1000 3600) ''NASA'')
     = Inl (HTTPException 500 (Dict ''Internal error'' (Str (Exception ''unexpected''))))"
proof -
  have miss: "\<not> contains (at_in (all_at 0)) (TTLCache_new 1000 3600) (lower ''NASA'')"
    by code_simp
  have a: "upstream_down (lower ''NASA'') = Inl (ConnectionException ''Connection refused'')"
    and b: "upstream_login (lower ''NASA'') = Inl (InstaloaderException ''Login required'')"
    and c: "upstream_broken (lower ''NASA'') = Inl (Exception ''unexpected'')"
    by (simp_all add: upstream_down_def upstream_login_def upstream_broken_def)
  show ?thesis
    using C3_error_translation [of "all_at 0" "TTLCache_new 1000 3600" "''NASA''" upstream_down
                                   "ConnectionException ''Connection refused''"]
          C3_error_translation [of "all_at 0" "TTLCache_new 1000 3600" "''NASA''" upstream_login
                                   "InstaloaderException ''Login required''"]
          C3_error_translation [of "all_at 0" "TTLCache_new 1000 3600" "''NASA''" upstream_broken
                                   "Exception ''unexpected''"]
          miss a b c
    by simp
qed

section \<open>The successful response\<close>

text \<open>
  C8. On a request that reaches the upstream and gets a record with a non-empty \<open>userid\<close>,
  the handler returns (status 200) a record whose fields are the upstream's, one for one:
  \<open>username\<close> from \<open>username\<close>, \<open>followers\<close> from \<open>followers\<close>, \<open>following\<close> from
  \<open>followees\<close>, \<open>posts_count\<close> from \<open>mediacount\<close>, \<open>dp_url\<close> from \<open>profile_pic_url\<close>,
  \<open>bio\<close> from \<open>biography\<close> and \<open>full_name\<close> from \<open>full_name\<close>.
\<close>

theorem C8_field_mapping:
  assumes "\<not> contains (at_in clk) c (lower u)"
    and "from_username (lower u) = Inr p"
    and "truthy (userid p)"
  shows "fst (get_instagram_profile_body from_username clk c u) =
           Inr \<lparr>username = p_username p, followers = p_followers p,
                following = followees p, posts_count = mediacount p,
                dp_url = profile_pic_url p, bio = biography p,
                full_name = p_full_name p\<rparr>
         \<and> status_code (fst (get_instagram_profile_body from_username clk c u)) = 200"
  using assms by (simp add: get_instagram_profile_body_def try_body_miss_profile)

theorem C8_field_mapping_witness:
  "\<not> contains (at_in (all_at 0)) (TTLCache_new 1000 3600) (lower ''nasa'')
   \<and> upstream_nasa (lower ''nasa'') = Inr nasa_profile
   \<and> truthy (userid nasa_profile)
   \<and> fst (get_instagram_profile_body upstream_nasa (all_at 0) (TTLCache_new 1000 3600) ''nasa'') =
       Inr \<lparr>username = ''nasa'', followers = 95000000, following = 60, posts_count = 4200,
            dp_url = ''https://.../nasa.jpg'', bio = Some ''Explore the universe.'',
            full_name = Some ''NASA''\<rparr>
   \<and> posts_count (projr (fst (get_instagram_profile_body upstream_nasa (all_at 0)
                                 (TTLCache_new 1000 3600) ''nasa''))) = mediacount nasa_profile"
proof -
  have miss: "\<not> contains (at_in (all_at 0)) (TTLCache_new 1000 3600) (lower ''nasa'')"
    by code_simp
  have up: "upstream_nasa (lower ''nasa'') = Inr nasa_profile"
    by code_simp
  have uid: "truthy (userid nasa_profile)"
    by (simp add: nasa_profile_def)
  show ?thesis
    using C8_field_mapping [where clk = "all_at 0" and c = "TTLCache_new 1000 3600" and u = "''nasa''"
                              and from_username = upstream_nasa and p = nasa_profile]
          miss up uid
    by (simp add: nasa_profile_def)
qed

section \<open>The image proxy\<close>

text \<open>
  The claim that an upstream response with a status outside 2xx is answered with 500 fails:
  the handler never looks at the status of the response it fetched, and a 404 of the
  upstream is passed on with status 200.
\<close>

theorem C2_non_2xx_counterexample:
  "proxy_status (proxy_image image_404 ''https://example.com/img.jpg'') = 200"
  by code_simp

text \<open>
  C2, as amended. Every fetch that raises (network error, timeout) is answered with the
  one \<^verbatim>\<open>HTTPException\<close> of status 500 and detail \<^verbatim>\<open>Image fetch failed\<close>, which holds
  nothing of the exception caught, and never with 200. Every fetch that returns a response,
  whatever its status, is answered with status 200 and that response's content.
\<close>

theorem C2_fetch_failure:
  "(client_get url = Inl e \<longrightarrow>
      proxy_image client_get url = Inl (HTTPException 500 (Plain ''Image fetch failed''))
      \<and> proxy_status (proxy_image client_get url) = 500)
   \<and> (client_get url = Inr resp \<longrightarrow>
      proxy_status (proxy_image client_get url) = 200
      \<and> s_content (projr (proxy_image client_get url)) = r_content resp)"
  by (simp add: proxy_image_def proxy_status_def)

theorem C2_fetch_failure_witness:
  "image_timeout ''https://example.com/img.jpg'' = Inl (Exception ''ReadTimeout'')
   \<and> proxy_image image_timeout ''https://example.com/img.jpg''
       = Inl (HTTPException 500 (Plain ''Image fetch failed''))
   \<and> proxy_status (proxy_image image_timeout ''https://example.com/img.jpg'') = 500
   \<and> image_404 ''https://example.com/img.jpg''
       = Inr \<lparr>r_status_code = 404, r_headers = [(''content-type'', ''text/html'')],
              r_content = ''Not Found''\<rparr>
   \<and> s_content (projr (proxy_image image_404 ''https://example.com/img.jpg'')) = ''Not Found''"
  using C2_fetch_failure [of image_timeout "''https://example.com/img.jpg''"
                             "Exception ''ReadTimeout''"]
        C2_fetch_failure [of image_404 "''https://example.com/img.jpg''" _
                             "\<lparr>r_status_code = 404,
                               r_headers = [(''content-type'', ''text/html'')],
                               r_content = ''Not Found''\<rparr>"]
  by (simp add: image_timeout_def image_404_def proxy_status_def)

section \<open>Properties of the cache operations\<close>

lemma evict_drop: "evict m es = drop (length es + 1 - m) es"
  by (induction es) (auto simp: Suc_diff_le)

lemma length_evict: "0 < m \<Longrightarrow> length (evict m es) < m"
  by (auto simp: evict_drop)

lemma set_evict: "set (evict m es) \<subseteq> set es"
  by (simp add: evict_drop set_drop_subset)

lemma distinct_keys_evict: "distinct (map key es) \<Longrightarrow> distinct (map key (evict m es))"
  by (simp add: evict_drop drop_map [symmetric] distinct_drop)

lemma evict_fits: "length es < m \<Longrightarrow> evict m es = es"
  by (simp add: evict_drop)

lemma find_append_new:
  "find P (filter (\<lambda>x. \<not> P x) xs @ [y]) = (if P y then Some y else None)"
  by (induction xs) auto

lemma lookup_in: "lookup c k = Some e \<Longrightarrow> e \<in> set (entries c) \<and> key e = k"
  by (auto simp: lookup_def find_Some_iff)

lemma find_key_other:
  "k' \<noteq> k \<Longrightarrow>
   find (\<lambda>e. key e = k') (filter (\<lambda>x. key x \<noteq> k) es @ [y]) =
     (case find (\<lambda>e. key e = k') es of None \<Rightarrow> (if key y = k' then Some y else None)
                                      | Some e \<Rightarrow> Some e)"
  by (induction es) auto

lemma length_filter_key:
  "e \<in> set es \<Longrightarrow> key e = k \<Longrightarrow> length (filter (\<lambda>x. key x \<noteq> k) es) < length es"
  by (rule length_filter_less [of e]) auto

lemma distinct_keys_filter:
  "distinct (map key es) \<Longrightarrow> distinct (map key (filter P es))"
  by (simp add: distinct_map_filter)

lemma distinct_keys_move:
  "distinct (map key es) \<Longrightarrow> key y = k \<Longrightarrow>
   distinct (map key (filter (\<lambda>x. key x \<noteq> k) es @ [y]))"
  by (auto simp: distinct_map_filter)

lemma maxsize_expire [simp]: "maxsize (expire now c) = maxsize c"
  and ttl_expire [simp]: "ttl (expire now c) = ttl c"
  by (simp_all add: expire_def)

lemma maxsize_setitem [simp]: "maxsize (setitem now c k v) = maxsize c"
  and ttl_setitem [simp]: "ttl (setitem now c k v) = ttl c"
  by (simp_all add: setitem_def Let_def)

lemma maxsize_getitem [simp]: "maxsize (snd (getitem now c k)) = maxsize c"
  and ttl_getitem [simp]: "ttl (snd (getitem now c k)) = ttl c"
  by (simp_all add: getitem_def split: option.splits)

lemma invar_expire:
  assumes "invar c"
  shows "invar (expire now c)"
proof -
  have "length (filter (\<lambda>e. now < expires e) (entries c)) \<le> maxsize c"
    using assms by (intro le_trans [OF length_filter_le]) (simp add: invar_def)
  then show ?thesis
    using assms by (simp add: invar_def expire_def distinct_map_filter)
qed

lemma invar_setitem:
  assumes "invar c"
  shows "invar (setitem now c k v)"
proof -
  let ?c1 = "expire now c"
  have c1: "invar ?c1"
    using assms by (rule invar_expire)
  then have d: "distinct (map key (entries ?c1))"
    and l: "length (entries ?c1) \<le> maxsize c"
    and m: "0 < maxsize c"
    by (simp_all add: invar_def)
  show ?thesis
  proof (cases "lookup ?c1 k")
    case None
    then have e: "entries (setitem now c k v) =
        filter (\<lambda>x. key x \<noteq> k) (evict (maxsize c) (entries ?c1))
          @ [\<lparr>key = k, val = v, expires = now + ttl c\<rparr>]"
      by (simp add: setitem_def Let_def)
    have "length (filter (\<lambda>x. key x \<noteq> k) (evict (maxsize c) (entries ?c1))) < maxsize c"
      using length_evict [OF m, of "entries ?c1"]
      by (rule le_less_trans [OF length_filter_le])
    moreover have "distinct (map key (filter (\<lambda>x. key x \<noteq> k) (evict (maxsize c) (entries ?c1))
                                        @ [\<lparr>key = k, val = v, expires = now + ttl c\<rparr>]))"
      using d by (intro distinct_keys_move distinct_keys_evict) simp_all
    ultimately show ?thesis
      using m by (simp add: invar_def e del: distinct_append map_append)
  next
    case (Some x)
    then have e: "entries (setitem now c k v) =
        filter (\<lambda>x. key x \<noteq> k) (entries ?c1) @ [\<lparr>key = k, val = v, expires = now + ttl c\<rparr>]"
      by (simp add: setitem_def Let_def)
    from Some have "x \<in> set (entries ?c1) \<and> key x = k"
      by (rule lookup_in)
    then have "length (filter (\<lambda>x. key x \<noteq> k) (entries ?c1)) < length (entries ?c1)"
      by (intro length_filter_key [of x]) simp_all
    moreover have "distinct (map key (filter (\<lambda>x. key x \<noteq> k) (entries ?c1)
                                        @ [\<lparr>key = k, val = v, expires = now + ttl c\<rparr>]))"
      using d by (intro distinct_keys_move) simp_all
    ultimately show ?thesis
      using m l by (simp add: invar_def e del: distinct_append map_append)
  qed
qed

lemma invar_getitem:
  assumes "invar c"
  shows "invar (snd (getitem now c k))"
proof (cases "lookup c k")
  case None
  then show ?thesis
    using assms by (simp add: getitem_def)
next
  case (Some x)
  then have x: "x \<in> set (entries c) \<and> key x = k"
    by (rule lookup_in)
  then have "length (filter (\<lambda>x. key x \<noteq> k) (entries c)) < length (entries c)"
    by (intro length_filter_key [of x]) simp_all
  moreover have "distinct (map key (filter (\<lambda>x. key x \<noteq> k) (entries c) @ [x]))"
    using assms x by (intro distinct_keys_move) (simp_all add: invar_def)
  ultimately show ?thesis
    using assms Some by (simp add: getitem_def invar_def del: distinct_append map_append)
qed

lemma invar_len: "invar c \<Longrightarrow> invar (snd (len now c))"
  by (simp add: len_def invar_expire)

lemma lookup_setitem:
  "lookup (setitem now c k v) k = Some \<lparr>key = k, val = v, expires = now + ttl c\<rparr>"
  by (simp add: lookup_def setitem_def Let_def find_append_new)

lemma contains_setitem: "contains t (setitem now c k v) k \<longleftrightarrow> t < now + ttl c"
  by (simp add: contains_def lookup_setitem)

lemma getitem_setitem:
  "t < now + ttl c \<Longrightarrow> fst (getitem t (setitem now c k v) k) = Inr v"
  by (simp add: getitem_def lookup_setitem)

lemma getitem_setitem_expired:
  "now + ttl c \<le> t \<Longrightarrow> fst (getitem t (setitem now c k v) k) = Inl (KeyError k)"
  by (simp add: getitem_def lookup_setitem)

lemma getitem_live:
  "fst (getitem now c k) = Inr v \<Longrightarrow>
   \<exists>e \<in> set (entries c). key e = k \<and> val e = v \<and> now < expires e"
  by (auto simp: getitem_def split: option.splits if_splits dest: lookup_in)

lemma contains_getitem:
  assumes "contains now c k"
  shows "\<exists>e. lookup c k = Some e \<and> now < expires e \<and>
     getitem now c k = (Inr (val e), c\<lparr>entries := filter (\<lambda>x. key x \<noteq> k) (entries c) @ [e]\<rparr>)"
proof (cases "lookup c k")
  case None
  with assms show ?thesis
    by (simp add: contains_def)
next
  case (Some e)
  with assms show ?thesis
    by (simp add: contains_def getitem_def)
qed

lemma getitem_error_unchanged: "fst (getitem now c k) = Inl e \<Longrightarrow> snd (getitem now c k) = c"
  by (auto simp: getitem_def split: option.splits if_splits)

lemma set_filter_key:
  assumes "distinct (map key es)" and "e \<in> set es" and "key e = k"
  shows "set (filter (\<lambda>x. key x \<noteq> k) es) \<union> {e} = set es"
proof (intro equalityI subsetI)
  fix x
  assume "x \<in> set (filter (\<lambda>x. key x \<noteq> k) es) \<union> {e}"
  then show "x \<in> set es"
    using assms(2) by auto
next
  fix x
  assume x: "x \<in> set es"
  have "inj_on key (set es)"
    using assms(1) by (simp add: distinct_map)
  then have "key x = k \<Longrightarrow> x = e"
    using x assms(2,3) by (simp add: inj_on_def)
  then show "x \<in> set (filter (\<lambda>x. key x \<noteq> k) es) \<union> {e}"
    using x by (cases "key x = k") simp_all
qed

lemma set_entries_getitem:
  assumes "invar c"
  shows "set (entries (snd (getitem now c k))) = set (entries c)"
proof (cases "lookup c k")
  case None
  then show ?thesis
    by (simp add: getitem_def)
next
  case (Some e)
  then have "e \<in> set (entries c) \<and> key e = k"
    by (rule lookup_in)
  with assms have "set (filter (\<lambda>x. key x \<noteq> k) (entries c)) \<union> {e} = set (entries c)"
    by (intro set_filter_key) (simp_all add: invar_def)
  with Some show ?thesis
    by (simp add: getitem_def)
qed

section \<open>The ways through the handler body\<close>

lemma body_hit:
  assumes "contains (at_in clk) c (lower u)"
  shows "\<exists>e. lookup c (lower u) = Some e \<and> at_in clk < expires e \<and>
     get_instagram_profile_body from_username clk c u =
       (if at_get clk < expires e
        then (Inr (val e),
              c\<lparr>entries := filter (\<lambda>x. key x \<noteq> lower u) (entries c) @ [e]\<rparr>, [])
        else (Inl (HTTPException 500 (Dict ''Internal error'' (Str (KeyError (lower u))))),
              c, []))"
proof (cases "lookup c (lower u)")
  case None
  with assms show ?thesis
    by (simp add: contains_def)
next
  case (Some e)
  with assms show ?thesis
    by (simp add: contains_def get_instagram_profile_body_def try_body_def getitem_def
                  except_clauses_def)
qed

lemma body_miss_raise:
  assumes "\<not> contains (at_in clk) c (lower u)" and "from_username (lower u) = Inl e"
  shows "\<exists>x. get_instagram_profile_body from_username clk c u = (Inl x, c, [lower u])"
  using assms
  by (simp add: get_instagram_profile_body_def try_body_miss_raise)

lemma body_miss_profile:
  assumes "\<not> contains (at_in clk) c (lower u)" and "from_username (lower u) = Inr p"
  shows "if truthy (userid p)
         then get_instagram_profile_body from_username clk c u =
                (Inr (profile_data_of p), setitem (at_set clk) c (lower u) (profile_data_of p),
                 [lower u])
         else \<exists>x. get_instagram_profile_body from_username clk c u = (Inl x, c, [lower u])"
  using assms
  by (simp add: get_instagram_profile_body_def try_body_miss_profile)

lemma body_cases:
  obtains (hit) e where "contains (at_in clk) c (lower u)" "lookup c (lower u) = Some e"
      "at_in clk < expires e" "at_get clk < expires e"
      "get_instagram_profile_body from_username clk c u =
         (Inr (val e),
          c\<lparr>entries := filter (\<lambda>x. key x \<noteq> lower u) (entries c) @ [e]\<rparr>, [])"
  | (stale) e where "contains (at_in clk) c (lower u)" "lookup c (lower u) = Some e"
      "expires e \<le> at_get clk"
      "get_instagram_profile_body from_username clk c u =
         (Inl (HTTPException 500 (Dict ''Internal error'' (Str (KeyError (lower u))))), c, [])"
  | (error) x where "\<not> contains (at_in clk) c (lower u)"
      "get_instagram_profile_body from_username clk c u = (Inl x, c, [lower u])"
  | (fetched) p where "\<not> contains (at_in clk) c (lower u)" "from_username (lower u) = Inr p"
      "truthy (userid p)"
      "get_instagram_profile_body from_username clk c u =
         (Inr (profile_data_of p), setitem (at_set clk) c (lower u) (profile_data_of p),
          [lower u])"
proof (cases "contains (at_in clk) c (lower u)")
  case True
  from body_hit [OF True, of from_username] obtain e where
    e: "lookup c (lower u) = Some e" "at_in clk < expires e"
    "get_instagram_profile_body from_username clk c u =
       (if at_get clk < expires e
        then (Inr (val e),
              c\<lparr>entries := filter (\<lambda>x. key x \<noteq> lower u) (entries c) @ [e]\<rparr>, [])
        else (Inl (HTTPException 500 (Dict ''Internal error'' (Str (KeyError (lower u))))),
              c, []))"
    by blast
  show ?thesis
  proof (cases "at_get clk < expires e")
    case True
    with e \<open>contains (at_in clk) c (lower u)\<close> hit show ?thesis
      by simp
  next
    case False
    with e \<open>contains (at_in clk) c (lower u)\<close> stale show ?thesis
      by simp
  qed
next
  case miss: False
  show ?thesis
  proof (cases "from_username (lower u)")
    case (Inl e)
    with body_miss_raise [where from_username = from_username and e = e, OF miss Inl] miss error
    show ?thesis
      by blast
  next
    case (Inr p)
    show ?thesis
    proof (cases "truthy (userid p)")
      case True
      with body_miss_profile [where from_username = from_username and p = p, OF miss Inr]
           miss Inr fetched
      show ?thesis
        by simp
    next
      case False
      with body_miss_profile [where from_username = from_username and p = p, OF miss Inr]
           miss error
      show ?thesis
        by auto
    qed
  qed
qed

lemma endpoint_rejected:
  assumes "\<not> fst (hit (at_limit clk) (limiter st) client)"
  shows "get_instagram_profile from_username clk client st uname =
           (Inl RateLimitExceeded, st\<lparr>limiter := snd (hit (at_limit clk) (limiter st) client)\<rparr>,
            [])"
proof -
  obtain ok lm' where h: "hit (at_limit clk) (limiter st) client = (ok, lm')"
    by (cases "hit (at_limit clk) (limiter st) client")
  with assms show ?thesis
    by (simp add: get_instagram_profile_def)
qed

lemma endpoint_admitted:
  assumes "fst (hit (at_limit clk) (limiter st) client)"
  shows "get_instagram_profile from_username clk client st uname =
           (fst (get_instagram_profile_body from_username clk (profile_cache st) uname),
            \<lparr>profile_cache =
                 fst (snd (get_instagram_profile_body from_username clk (profile_cache st) uname)),
             limiter = snd (hit (at_limit clk) (limiter st) client)\<rparr>,
            snd (snd (get_instagram_profile_body from_username clk (profile_cache st) uname)))"
proof -
  obtain ok lm' where h: "hit (at_limit clk) (limiter st) client = (ok, lm')"
    by (cases "hit (at_limit clk) (limiter st) client")
  with assms show ?thesis
    by (simp add: get_instagram_profile_def split: prod.splits)
qed

text \<open>
  Between the membership test and the read the entry may expire: the read then raises
  \<^verbatim>\<open>KeyError\<close>, which the last \<^verbatim>\<open>except\<close> clause turns into status 500.
\<close>

lemma body_stale_read:
  assumes "lookup c (lower u) = Some e" and "at_in clk < expires e" and "expires e \<le> at_get clk"
  shows "get_instagram_profile_body from_username clk c u =
           (Inl (HTTPException 500 (Dict ''Internal error'' (Str (KeyError (lower u))))), c, [])"
  using assms
  by (simp add: contains_def get_instagram_profile_body_def try_body_def getitem_def
                except_clauses_def)

lemma body_queries:
  "snd (snd (get_instagram_profile_body from_username clk c u)) =
     (if contains (at_in clk) c (lower u) then [] else [lower u])"
  by (cases rule: body_cases [of clk c u from_username]) simp_all

lemma keys_setitem:
  "key ` set (entries (setitem now c k v)) \<subseteq> key ` set (entries c) \<union> {k}"
proof -
  have "set (evict m es) \<subseteq> set es" for m es
    by (rule set_evict)
  then have "set (evict (maxsize c) (filter (\<lambda>e. now < expires e) (entries c))) \<subseteq> set (entries c)"
    by (rule subset_trans) simp
  then show ?thesis
    by (auto simp: setitem_def Let_def expire_def split: option.splits)
qed

lemma body_keys:
  "key ` set (entries (fst (snd (get_instagram_profile_body from_username clk c u))))
     \<subseteq> key ` set (entries c) \<union> {lower u}"
proof (cases rule: body_cases [of clk c u from_username])
  case (hit e)
  from hit(2) have "e \<in> set (entries c) \<and> key e = lower u"
    by (rule lookup_in)
  with hit(5) show ?thesis
    by auto
next
  case (stale e)
  then show ?thesis
    by auto
next
  case (error x)
  then show ?thesis
    by auto
next
  case (fetched p)
  with keys_setitem [of "at_set clk" c "lower u" "profile_data_of p"] show ?thesis
    by simp
qed

lemma body_error_cache:
  assumes "fst (get_instagram_profile_body from_username clk c u) = Inl e"
  shows "fst (snd (get_instagram_profile_body from_username clk c u)) = c"
  using assms by (cases rule: body_cases [of clk c u from_username]) simp_all

lemma body_write:
  assumes "invar c"
    and "set (entries (fst (snd (get_instagram_profile_body from_username clk c u))))
           \<noteq> set (entries c)"
  shows "\<exists>p. from_username (lower u) = Inr p \<and> truthy (userid p) \<and>
           get_instagram_profile_body from_username clk c u =
             (Inr (profile_data_of p), setitem (at_set clk) c (lower u) (profile_data_of p),
              [lower u])"
proof (cases rule: body_cases [of clk c u from_username])
  case (hit e)
  from hit(2) have "e \<in> set (entries c) \<and> key e = lower u"
    by (rule lookup_in)
  with assms(1)
  have "set (filter (\<lambda>x. key x \<noteq> lower u) (entries c)) \<union> {e} = set (entries c)"
    by (intro set_filter_key) (simp_all add: invar_def)
  with hit(5) assms(2) show ?thesis
    by simp
next
  case (stale e)
  with assms(2) show ?thesis
    by simp
next
  case (error x)
  with assms(2) show ?thesis
    by simp
next
  case (fetched p)
  then show ?thesis
    by blast
qed

section \<open>Cache writes\<close>

text \<open>
  C9. A request to the profile endpoint that ends in an error (rate limited, not found,
  upstream failure, internal error) leaves the profile cache as it was. On a well-formed
  cache, the set of entries changes only when the upstream returned a record with a
  non-empty \<open>userid\<close>; the request then succeeds with the record built from it, and the
  cache is the old one with that record stored under the lower-cased username.
\<close>

theorem C9_cache_written_on_success_only:
  "(fst (get_instagram_profile from_username clk client st u) = Inl e \<longrightarrow>
      profile_cache (fst (snd (get_instagram_profile from_username clk client st u)))
        = profile_cache st)
   \<and> (invar (profile_cache st) \<and>
       set (entries (profile_cache
              (fst (snd (get_instagram_profile from_username clk client st u)))))
         \<noteq> set (entries (profile_cache st)) \<longrightarrow>
      (\<exists>p. from_username (lower u) = Inr p \<and> truthy (userid p) \<and>
           fst (get_instagram_profile from_username clk client st u)
             = Inr (profile_data_of p) \<and>
           profile_cache (fst (snd (get_instagram_profile from_username clk client st u)))
             = setitem (at_set clk) (profile_cache st) (lower u) (profile_data_of p)))"
proof (cases "fst (hit (at_limit clk) (limiter st) client)")
  case False
  then show ?thesis
    by (simp add: endpoint_rejected)
next
  case True
  show ?thesis
  proof (intro conjI impI)
    assume "fst (get_instagram_profile from_username clk client st u) = Inl e"
    with True show "profile_cache (fst (snd (get_instagram_profile from_username clk client st u)))
        = profile_cache st"
      by (simp add: endpoint_admitted body_error_cache)
  next
    assume "invar (profile_cache st) \<and>
       set (entries (profile_cache
              (fst (snd (get_instagram_profile from_username clk client st u)))))
         \<noteq> set (entries (profile_cache st))"
    with True have "invar (profile_cache st)"
      and "set (entries (fst (snd (get_instagram_profile_body from_username clk
                                     (profile_cache st) u))))
             \<noteq> set (entries (profile_cache st))"
      by (simp_all add: endpoint_admitted)
    from body_write [OF this] True
    show "\<exists>p. from_username (lower u) = Inr p \<and> truthy (userid p) \<and>
           fst (get_instagram_profile from_username clk client st u)
             = Inr (profile_data_of p) \<and>
           profile_cache (fst (snd (get_instagram_profile from_username clk client st u)))
             = setitem (at_set clk) (profile_cache st) (lower u) (profile_data_of p)"
      by (auto simp: endpoint_admitted)
  qed
qed

theorem C9_cache_written_on_success_only_witness:
  "fst (get_instagram_profile upstream_missing (all_at 0) ''198.51.100.7'' initial_state ''ghost'')
     = Inl (HTTPException 500
              (Dict ''Internal error''
                 (Str (HTTPException 404
                         (Dict ''Profile not found'' (Lit ''@ghost doesn't exist''))))))
   \<and> profile_cache (fst (snd (get_instagram_profile upstream_missing (all_at 0) ''198.51.100.7''
                                 initial_state ''ghost'')))
       = profile_cache initial_state
   \<and> invar (profile_cache initial_state)
   \<and> set (entries (profile_cache (fst (snd (get_instagram_profile upstream_nasa (all_at 0)
                                               ''198.51.100.7'' initial_state ''NASA'')))))
       \<noteq> set (entries (profile_cache initial_state))
   \<and> fst (get_instagram_profile upstream_nasa (all_at 0) ''198.51.100.7'' initial_state ''NASA'')
       = Inr (profile_data_of nasa_profile)"
proof -
  have a: "fst (get_instagram_profile upstream_missing (all_at 0) ''198.51.100.7'' initial_state ''ghost'')
     = Inl (HTTPException 500
              (Dict ''Internal error''
                 (Str (HTTPException 404
                         (Dict ''Profile not found'' (Lit ''@ghost doesn't exist''))))))"
    by code_simp
  have inv: "invar (profile_cache initial_state)"
    by (simp add: invar_def initial_state_def TTLCache_new_def)
  have c: "profile_cache (fst (snd (get_instagram_profile upstream_nasa (all_at 0) ''198.51.100.7''
                                      initial_state ''NASA'')))
             = \<lparr>maxsize = 1000, ttl = 3600,
                entries = [\<lparr>key = ''nasa'', val = profile_data_of nasa_profile,
                            expires = 3600\<rparr>]\<rparr>"
    by code_simp
  have ch: "set (entries (profile_cache (fst (snd (get_instagram_profile upstream_nasa (all_at 0)
                                               ''198.51.100.7'' initial_state ''NASA'')))))
       \<noteq> set (entries (profile_cache initial_state))"
    unfolding c by (simp add: initial_state_def TTLCache_new_def)
  have up: "upstream_nasa (lower ''NASA'') = Inr nasa_profile"
    by code_simp
  from C9_cache_written_on_success_only
         [of upstream_missing "all_at 0" "''198.51.100.7''" initial_state "''ghost''"] a
  have 1: "profile_cache (fst (snd (get_instagram_profile upstream_missing (all_at 0) ''198.51.100.7''
                                 initial_state ''ghost'')))
       = profile_cache initial_state"
    by simp
  from C9_cache_written_on_success_only
         [of upstream_nasa "all_at 0" "''198.51.100.7''" initial_state "''NASA''"] inv ch up
  have 2: "fst (get_instagram_profile upstream_nasa (all_at 0) ''198.51.100.7'' initial_state ''NASA'')
       = Inr (profile_data_of nasa_profile)"
    by auto
  from a 1 inv ch 2 show ?thesis
    by blast
qed

lemma try_body_lower:
  assumes "lower u1 = lower u2"
  shows "snd (try_body from_username clk c u1) = snd (try_body from_username clk c u2)"
    and "(fst (try_body from_username clk c u1) = Inr d)
           = (fst (try_body from_username clk c u2) = Inr d)"
  using assms by (auto simp: try_body_def Let_def split: sum.splits prod.splits)

lemma body_snd:
  "snd (get_instagram_profile_body from_username clk c u) = snd (try_body from_username clk c u)"
  by (simp add: get_instagram_profile_body_def split: prod.splits sum.splits)

lemma body_fst_Inr:
  "(fst (get_instagram_profile_body from_username clk c u) = Inr d)
     = (fst (try_body from_username clk c u) = Inr d)"
  by (simp add: get_instagram_profile_body_def split: prod.splits sum.splits)

section \<open>Normalisation of the username\<close>

text \<open>
  C7. The handler uses the username through \<open>lower\<close>: the upstream is asked for the
  lower-cased name only; the request is served from the cache exactly when the cache holds
  a live entry under the lower-cased name; the only key a request can add to the cache is
  the lower-cased name; and two requests whose usernames differ only in letter case, made
  in the same situation, leave the same cache, ask the upstream the same question and
  succeed with the same record or fail alike.
\<close>

theorem C7_lowercase_normalisation:
  "set (snd (snd (get_instagram_profile_body from_username clk c u))) \<subseteq> {lower u}
   \<and> (snd (snd (get_instagram_profile_body from_username clk c u)) = []
        \<longleftrightarrow> contains (at_in clk) c (lower u))
   \<and> key ` set (entries (fst (snd (get_instagram_profile_body from_username clk c u))))
        \<subseteq> key ` set (entries c) \<union> {lower u}
   \<and> (lower u1 = lower u2 \<longrightarrow>
        snd (get_instagram_profile_body from_username clk c u1)
          = snd (get_instagram_profile_body from_username clk c u2)
        \<and> (\<forall>d. fst (get_instagram_profile_body from_username clk c u1) = Inr d
                \<longleftrightarrow> fst (get_instagram_profile_body from_username clk c u2) = Inr d))"
proof (intro conjI impI)
  show "set (snd (snd (get_instagram_profile_body from_username clk c u))) \<subseteq> {lower u}"
    by (simp add: body_queries)
  show "snd (snd (get_instagram_profile_body from_username clk c u)) = []
        \<longleftrightarrow> contains (at_in clk) c (lower u)"
    by (simp add: body_queries)
  show "key ` set (entries (fst (snd (get_instagram_profile_body from_username clk c u))))
        \<subseteq> key ` set (entries c) \<union> {lower u}"
    by (rule body_keys)
next
  assume eq: "lower u1 = lower u2"
  then show "snd (get_instagram_profile_body from_username clk c u1)
          = snd (get_instagram_profile_body from_username clk c u2)"
    unfolding body_snd by (rule try_body_lower)
  from eq show "\<forall>d. fst (get_instagram_profile_body from_username clk c u1) = Inr d
                \<longleftrightarrow> fst (get_instagram_profile_body from_username clk c u2) = Inr d"
    unfolding body_fst_Inr by (intro allI try_body_lower)
qed

theorem C7_lowercase_normalisation_witness:
  "lower ''NASA'' = lower ''nasa''
   \<and> snd (get_instagram_profile_body upstream_nasa (all_at 0) (TTLCache_new 1000 3600) ''NASA'')
       = snd (get_instagram_profile_body upstream_nasa (all_at 0) (TTLCache_new 1000 3600) ''nasa'')
   \<and> fst (get_instagram_profile_body upstream_nasa (all_at 0) (TTLCache_new 1000 3600) ''nasa'')
       = Inr (profile_data_of nasa_profile)
   \<and> set (snd (snd (get_instagram_profile_body upstream_nasa (all_at 0) (TTLCache_new 1000 3600)
                       ''NASA''))) \<subseteq> {''nasa''}"
proof -
  have eq: "lower ''NASA'' = lower ''nasa''"
    by code_simp
  have l: "lower ''NASA'' = ''nasa''"
    by code_simp
  have r: "fst (get_instagram_profile_body upstream_nasa (all_at 0) (TTLCache_new 1000 3600) ''NASA'')
       = Inr (profile_data_of nasa_profile)"
    by code_simp
  note t = C7_lowercase_normalisation
             [where from_username = upstream_nasa and clk = "all_at 0" and c = "TTLCache_new 1000 3600"
                and u = "''NASA''" and ?u1.0 = "''NASA''" and ?u2.0 = "''nasa''"]
  from t eq have
    "snd (get_instagram_profile_body upstream_nasa (all_at 0) (TTLCache_new 1000 3600) ''NASA'')
       = snd (get_instagram_profile_body upstream_nasa (all_at 0) (TTLCache_new 1000 3600) ''nasa'')"
    by blast
  moreover from t eq r have
    "fst (get_instagram_profile_body upstream_nasa (all_at 0) (TTLCache_new 1000 3600) ''nasa'')
       = Inr (profile_data_of nasa_profile)"
    by blast
  moreover from t l have
    "set (snd (snd (get_instagram_profile_body upstream_nasa (all_at 0) (TTLCache_new 1000 3600)
                       ''NASA''))) \<subseteq> {''nasa''}"
    by simp
  ultimately show ?thesis
    using eq by blast
qed

section \<open>The username of the record and the key of the cache\<close>

text \<open>
  C10. On a request that reaches the upstream and gets a record with a non-empty \<open>userid\<close>,
  the \<open>username\<close> of the record returned is the upstream's, whatever string the caller put
  in the path: where the two differ, the record's username is not the request's. The record
  is stored in the cache under the lower-cased request string, and no other key is new.
\<close>

theorem C10_canonical_username:
  assumes "\<not> contains (at_in clk) c (lower u)"
    and "from_username (lower u) = Inr p"
    and "truthy (userid p)"
  shows "\<exists>d c'. get_instagram_profile_body from_username clk c u = (Inr d, c', [lower u])
           \<and> username d = p_username p
           \<and> (p_username p \<noteq> u \<longrightarrow> username d \<noteq> u)
           \<and> lookup c' (lower u) = Some \<lparr>key = lower u, val = d, expires = at_set clk + ttl c\<rparr>
           \<and> key ` set (entries c') \<subseteq> key ` set (entries c) \<union> {lower u}"
proof -
  from body_miss_profile [where from_username = from_username and p = p, OF assms(1,2)] assms(3)
  have "get_instagram_profile_body from_username clk c u =
          (Inr (profile_data_of p), setitem (at_set clk) c (lower u) (profile_data_of p),
           [lower u])"
    by simp
  then show ?thesis
    using keys_setitem [of "at_set clk" c "lower u" "profile_data_of p"]
    by (simp add: lookup_setitem)
qed

theorem C10_canonical_username_witness:
  "\<not> contains (at_in (all_at 0)) (TTLCache_new 1000 3600) (lower ''NASA'')
   \<and> upstream_nasa (lower ''NASA'') = Inr nasa_profile
   \<and> truthy (userid nasa_profile)
   \<and> p_username nasa_profile \<noteq> ''NASA''
   \<and> (\<exists>d c'. get_instagram_profile_body upstream_nasa (all_at 0) (TTLCache_new 1000 3600) ''NASA''
                 = (Inr d, c', [''nasa''])
          \<and> username d = ''nasa'' \<and> username d \<noteq> ''NASA''
          \<and> lookup c' ''nasa'' = Some \<lparr>key = ''nasa'', val = d, expires = 3600\<rparr>)"
proof -
  have miss: "\<not> contains (at_in (all_at 0)) (TTLCache_new 1000 3600) (lower ''NASA'')"
    by code_simp
  have up: "upstream_nasa (lower ''NASA'') = Inr nasa_profile"
    by code_simp
  have uid: "truthy (userid nasa_profile)"
    by (simp add: nasa_profile_def)
  have l: "lower ''NASA'' = ''nasa''"
    by code_simp
  have n: "p_username nasa_profile = ''nasa''"
    by (simp add: nasa_profile_def)
  have t: "ttl (TTLCache_new 1000 3600) = 3600"
    by (simp add: TTLCache_new_def)
  from C10_canonical_username
         [where from_username = upstream_nasa and clk = "all_at 0" and c = "TTLCache_new 1000 3600"
            and u = "''NASA''" and p = nasa_profile, OF miss up uid]
  obtain d c' where
    "get_instagram_profile_body upstream_nasa (all_at 0) (TTLCache_new 1000 3600) ''NASA''
       = (Inr d, c', [lower ''NASA''])"
    "username d = p_username nasa_profile"
    "lookup c' (lower ''NASA'')
       = Some \<lparr>key = lower ''NASA'', val = d,
               expires = at_set (all_at 0) + ttl (TTLCache_new 1000 3600)\<rparr>"
    by blast
  then have "get_instagram_profile_body upstream_nasa (all_at 0) (TTLCache_new 1000 3600) ''NASA''
                 = (Inr d, c', [''nasa''])
          \<and> username d = ''nasa'' \<and> username d \<noteq> ''NASA''
          \<and> lookup c' ''nasa'' = Some \<lparr>key = ''nasa'', val = d, expires = 3600\<rparr>"
    by (simp add: l n t all_at_def)
  then show ?thesis
    using miss up uid n by auto
qed

section \<open>Capacity and expiry of the cache\<close>

lemma body_cache_invar:
  assumes "invar c"
  shows "invar (fst (snd (get_instagram_profile_body from_username clk c u)))"
proof (cases rule: body_cases [of clk c u from_username])
  case (hit e)
  then have "fst (snd (get_instagram_profile_body from_username clk c u))
          = snd (getitem (at_get clk) c (lower u))"
    by (simp add: getitem_def)
  with assms show ?thesis
    by (simp add: invar_getitem)
next
  case (stale e)
  with assms show ?thesis
    by simp
next
  case (error x)
  with assms show ?thesis
    by simp
next
  case (fetched p)
  with assms show ?thesis
    by (simp add: invar_setitem)
qed

lemma body_cache_params:
  "maxsize (fst (snd (get_instagram_profile_body from_username clk c u))) = maxsize c
   \<and> ttl (fst (snd (get_instagram_profile_body from_username clk c u))) = ttl c"
  by (cases rule: body_cases [of clk c u from_username]) simp_all

lemma endpoint_cache:
  "profile_cache (fst (snd (get_instagram_profile from_username clk client st u))) =
     (if fst (hit (at_limit clk) (limiter st) client)
      then fst (snd (get_instagram_profile_body from_username clk (profile_cache st) u))
      else profile_cache st)"
  by (simp add: endpoint_admitted endpoint_rejected)

lemma health_check_cache:
  "profile_cache (snd (health_check wall now st)) = expire now (profile_cache st)"
  by (simp add: health_check_def len_def)

lemma step_invar:
  assumes "invar (profile_cache st)"
  shows "invar (profile_cache (step st r))"
proof (cases r)
  case (Scrape from_username clk client u)
  with assms show ?thesis
    by (simp add: endpoint_cache body_cache_invar)
next
  case (ProxyImage client_get url)
  with assms show ?thesis
    by simp
next
  case (HealthCheck wall now)
  with assms show ?thesis
    by (simp add: health_check_cache invar_expire)
qed

lemma step_params:
  "maxsize (profile_cache (step st r)) = maxsize (profile_cache st)
   \<and> ttl (profile_cache (step st r)) = ttl (profile_cache st)"
  by (cases r) (simp_all add: endpoint_cache body_cache_params health_check_cache)

lemma foldl_step_invar:
  "invar (profile_cache st) \<Longrightarrow> invar (profile_cache (foldl step st rs))"
  by (induction rs arbitrary: st) (simp_all add: step_invar)

lemma foldl_step_params:
  "maxsize (profile_cache (foldl step st rs)) = maxsize (profile_cache st)
   \<and> ttl (profile_cache (foldl step st rs)) = ttl (profile_cache st)"
  by (induction rs arbitrary: st) (simp_all add: step_params)

lemma serve_invar:
  "invar (profile_cache (serve rs)) \<and> maxsize (profile_cache (serve rs)) = 1000
   \<and> ttl (profile_cache (serve rs)) = 3600"
proof -
  have "invar (profile_cache initial_state)"
    by (simp add: invar_def initial_state_def TTLCache_new_def)
  then have "invar (profile_cache (serve rs))"
    unfolding serve_def by (rule foldl_step_invar)
  moreover have "maxsize (profile_cache initial_state) = 1000"
    and "ttl (profile_cache initial_state) = 3600"
    by (simp_all add: initial_state_def TTLCache_new_def)
  ultimately show ?thesis
    by (simp add: serve_def foldl_step_params)
qed

lemma lookup_None_keys: "lookup c k = None \<longleftrightarrow> k \<notin> key ` set (entries c)"
  by (auto simp: lookup_def find_None_iff)

lemma setitem_new_key:
  assumes "k \<notin> key ` set (entries c)"
  shows "entries (setitem now c k v) =
           evict (maxsize c) (filter (\<lambda>e. now < expires e) (entries c))
             @ [\<lparr>key = k, val = v, expires = now + ttl c\<rparr>]"
proof -
  let ?es = "filter (\<lambda>e. now < expires e) (entries c)"
  from assms have 1: "k \<notin> key ` set ?es"
    by auto
  then have 2: "lookup (expire now c) k = None"
    by (simp add: lookup_None_keys expire_def)
  from 1 set_evict [of "maxsize c" ?es] have "\<forall>x \<in> set (evict (maxsize c) ?es). key x \<noteq> k"
    by auto
  then have "filter (\<lambda>x. key x \<noteq> k) (evict (maxsize c) ?es) = evict (maxsize c) ?es"
    by (simp add: filter_id_conv)
  with 2 show ?thesis
    by (simp add: setitem_def Let_def expire_def)
qed

lemma full_cache_evicts:
  assumes "invar c" and "length (entries c) = maxsize c" and "k \<notin> key ` set (entries c)"
  shows "\<exists>e \<in> set (entries c). key e \<notin> key ` set (entries (setitem now c k v))"
proof (rule ccontr)
  let ?es = "evict (maxsize c) (filter (\<lambda>e. now < expires e) (entries c))"
  assume "\<not> ?thesis"
  then have "key ` set (entries c) \<subseteq> key ` set (entries (setitem now c k v))"
    by auto
  with assms(3) have sub: "key ` set (entries c) \<subseteq> key ` set ?es"
    by (auto simp: setitem_new_key)
  from assms(1) have "0 < maxsize c" and d: "distinct (map key (entries c))"
    by (simp_all add: invar_def)
  then have "length ?es < maxsize c"
    by (simp add: length_evict)
  moreover have "card (key ` set ?es) \<le> length ?es"
    using card_length [of "map key ?es"] by simp
  moreover have "card (key ` set (entries c)) = length (entries c)"
    using distinct_card [OF d] by simp
  moreover have "card (key ` set (entries c)) \<le> card (key ` set ?es)"
    using sub by (intro card_mono) simp_all
  ultimately show False
    using assms(2) by simp
qed

lemma served_from_cache_live:
  assumes "snd (snd (get_instagram_profile_body from_username clk c u)) = []"
    and "fst (get_instagram_profile_body from_username clk c u) = Inr d"
  shows "\<exists>e \<in> set (entries c). key e = lower u \<and> val e = d
           \<and> at_in clk < expires e \<and> at_get clk < expires e"
proof (cases rule: body_cases [of clk c u from_username])
  case (hit e)
  from hit(2) have "e \<in> set (entries c) \<and> key e = lower u"
    by (rule lookup_in)
  with hit(3,4,5) assms(2) show ?thesis
    by auto
next
  case (stale e)
  with assms(2) show ?thesis
    by simp
next
  case (error x)
  with assms(1) show ?thesis
    by simp
next
  case (fetched p)
  with assms(1) show ?thesis
    by simp
qed

text \<open>
  C6. In every state the service reaches, whatever the requests, the profile cache holds at
  most its capacity of 1000 entries (and no key twice). Storing a new key in a full,
  well-formed cache keeps the count within the capacity and removes an entry that was
  there. A lookup returns a value only from an entry that is not expired: an entry stored
  at \<open>t0\<close> is still found in the cache one TTL later, but it is not reported as contained
  and reading it raises \<^verbatim>\<open>KeyError\<close>; and a request answered from the cache is answered
  from an entry that is live at the membership test and at the read.
\<close>

theorem C6_cache_capacity_and_expiry:
  "length (entries (profile_cache (serve rs))) \<le> 1000
   \<and> maxsize (profile_cache (serve rs)) = 1000
   \<and> ttl (profile_cache (serve rs)) = 3600
   \<and> distinct (map key (entries (profile_cache (serve rs))))
   \<and> (invar c \<and> length (entries c) = maxsize c \<and> k \<notin> key ` set (entries c) \<longrightarrow>
        length (entries (setitem now c k v)) \<le> maxsize c
        \<and> (\<exists>e \<in> set (entries c). key e \<notin> key ` set (entries (setitem now c k v))))
   \<and> (fst (getitem now c k) = Inr v \<longrightarrow>
        (\<exists>e \<in> set (entries c). key e = k \<and> val e = v \<and> now < expires e))
   \<and> (t0 + ttl c \<le> now \<longrightarrow>
        lookup (setitem t0 c k v) k = Some \<lparr>key = k, val = v, expires = t0 + ttl c\<rparr>
        \<and> \<not> contains now (setitem t0 c k v) k
        \<and> fst (getitem now (setitem t0 c k v) k) = Inl (KeyError k))
   \<and> (snd (snd (get_instagram_profile_body from_username clk c u)) = []
       \<and> fst (get_instagram_profile_body from_username clk c u) = Inr d \<longrightarrow>
        (\<exists>e \<in> set (entries c). key e = lower u \<and> val e = d
              \<and> at_in clk < expires e \<and> at_get clk < expires e))"
proof (intro conjI impI)
  from serve_invar [of rs]
  show "length (entries (profile_cache (serve rs))) \<le> 1000"
    and "maxsize (profile_cache (serve rs)) = 1000"
    and "ttl (profile_cache (serve rs)) = 3600"
    and "distinct (map key (entries (profile_cache (serve rs))))"
    by (simp_all add: invar_def)
next
  assume h: "invar c \<and> length (entries c) = maxsize c \<and> k \<notin> key ` set (entries c)"
  then have "invar (setitem now c k v)"
    by (simp add: invar_setitem)
  then show "length (entries (setitem now c k v)) \<le> maxsize c"
    by (simp add: invar_def)
  from h show "\<exists>e \<in> set (entries c). key e \<notin> key ` set (entries (setitem now c k v))"
    by (simp add: full_cache_evicts)
next
  assume "fst (getitem now c k) = Inr v"
  then show "\<exists>e \<in> set (entries c). key e = k \<and> val e = v \<and> now < expires e"
    by (rule getitem_live)
next
  assume "t0 + ttl c \<le> now"
  then show "lookup (setitem t0 c k v) k = Some \<lparr>key = k, val = v, expires = t0 + ttl c\<rparr>"
    and "\<not> contains now (setitem t0 c k v) k"
    and "fst (getitem now (setitem t0 c k v) k) = Inl (KeyError k)"
    by (simp_all add: lookup_setitem contains_setitem getitem_setitem_expired)
next
  assume "snd (snd (get_instagram_profile_body from_username clk c u)) = []
       \<and> fst (get_instagram_profile_body from_username clk c u) = Inr d"
  then show "\<exists>e \<in> set (entries c). key e = lower u \<and> val e = d
              \<and> at_in clk < expires e \<and> at_get clk < expires e"
    by (intro served_from_cache_live [where from_username = from_username]) simp_all
qed

lemma full_cache_invar: "invar full_cache"
proof -
  have "inj_on (\<lambda>i. replicate (Suc i) (CHR ''a'')) (set [0..<1000])"
    by (rule inj_onI) (simp add: replicate_eq_replicate del: replicate_Suc)
  then have "distinct (map (\<lambda>i. replicate (Suc i) (CHR ''a'')) [0..<1000])"
    by (simp add: distinct_map)
  then show ?thesis
    by (simp add: invar_def full_cache_def comp_def)
qed

lemma full_cache_full: "length (entries full_cache) = maxsize full_cache"
  by (simp add: full_cache_def)

lemma full_cache_new_key: "''nasa'' \<notin> key ` set (entries full_cache)"
  by (auto simp: full_cache_def)

theorem C6_cache_capacity_and_expiry_witness:
  "length (entries (profile_cache
             (serve [Scrape upstream_nasa (all_at 0) ''198.51.100.7'' ''NASA'', HealthCheck 5 5])))
     \<le> 1000
   \<and> invar full_cache
   \<and> length (entries full_cache) = maxsize full_cache
   \<and> ''nasa'' \<notin> key ` set (entries full_cache)
   \<and> length (entries (setitem 0 full_cache ''nasa'' (profile_data_of nasa_profile))) \<le> 1000
   \<and> (\<exists>e \<in> set (entries full_cache).
         key e \<notin> key ` set (entries (setitem 0 full_cache ''nasa''
                                         (profile_data_of nasa_profile))))
   \<and> fst (getitem 3599 (setitem 0 (TTLCache_new 1000 3600) ''nasa''
                          (profile_data_of nasa_profile)) ''nasa'')
       = Inr (profile_data_of nasa_profile)
   \<and> (0::real) + ttl (TTLCache_new 1000 3600) \<le> 3600
   \<and> \<not> contains 3600 (setitem 0 (TTLCache_new 1000 3600) ''nasa''
                          (profile_data_of nasa_profile)) ''nasa''
   \<and> fst (getitem 3600 (setitem 0 (TTLCache_new 1000 3600) ''nasa''
                          (profile_data_of nasa_profile)) ''nasa'')
       = Inl (KeyError ''nasa'')"
proof -
  have m: "maxsize full_cache = 1000"
    by (simp add: full_cache_def)
  have t: "(0::real) + ttl (TTLCache_new 1000 3600) \<le> 3600"
    by (simp add: TTLCache_new_def)
  have g: "fst (getitem 3599 (setitem 0 (TTLCache_new 1000 3600) ''nasa''
                          (profile_data_of nasa_profile)) ''nasa'')
       = Inr (profile_data_of nasa_profile)"
    by (simp add: getitem_setitem TTLCache_new_def)
  from C6_cache_capacity_and_expiry
         [where rs = "[Scrape upstream_nasa (all_at 0) ''198.51.100.7'' ''NASA'', HealthCheck 5 5]"]
  have 1: "length (entries (profile_cache
             (serve [Scrape upstream_nasa (all_at 0) ''198.51.100.7'' ''NASA'', HealthCheck 5 5])))
     \<le> 1000"
    by blast
  from C6_cache_capacity_and_expiry
         [where c = full_cache and k = "''nasa''" and now = 0
            and v = "profile_data_of nasa_profile"]
       full_cache_invar full_cache_full full_cache_new_key m
  have 2: "length (entries (setitem 0 full_cache ''nasa'' (profile_data_of nasa_profile)))
             \<le> 1000
           \<and> (\<exists>e \<in> set (entries full_cache).
                 key e \<notin> key ` set (entries (setitem 0 full_cache ''nasa''
                                                 (profile_data_of nasa_profile))))"
    by simp
  from C6_cache_capacity_and_expiry
         [where c = "TTLCache_new 1000 3600" and k = "''nasa''" and now = 3600 and ?t0.0 = 0
            and v = "profile_data_of nasa_profile"] t
  have 3: "\<not> contains 3600 (setitem 0 (TTLCache_new 1000 3600) ''nasa''
                          (profile_data_of nasa_profile)) ''nasa''
           \<and> fst (getitem 3600 (setitem 0 (TTLCache_new 1000 3600) ''nasa''
                          (profile_data_of nasa_profile)) ''nasa'')
               = Inl (KeyError ''nasa'')"
    by blast
  from 1 2 3 g t full_cache_invar full_cache_full full_cache_new_key show ?thesis
    by blast
qed

section \<open>The rate limit of the profile endpoint\<close>

lemma hit_fresh:
  assumes "lm client = None \<or> (\<exists>w. lm client = Some w \<and> window_start w + limit_period \<le> t)"
  shows "hit t lm client = (True, lm(client \<mapsto> \<lparr>window_start = t, count = 1\<rparr>))"
  using assms by (auto simp: hit_def)










section \<open>Two fetches within the lifetime of a cache entry\<close>

lemma lookup_moved:
  "key e = k \<Longrightarrow> lookup (c\<lparr>entries := filter (\<lambda>x. key x \<noteq> k) (entries c) @ [e]\<rparr>) k = Some e"
  by (simp add: lookup_def find_append_new)

lemma lookup_unique:
  assumes "distinct (map key es)" and "e \<in> set es"
  shows "find (\<lambda>x. key x = key e) es = Some e"
  using assms by (induction es) (auto simp: image_iff)

lemma near_end_filter:
  assumes "near_end e j es" and "P e"
  shows "near_end e j (filter P es)"
proof -
  from assms(1) obtain pre post where "es = pre @ e # post" and "length post \<le> j"
    by blast
  with assms(2) have "filter P es = filter P pre @ e # filter P post"
    and "length (filter P post) \<le> j"
    by (simp_all add: le_trans [OF length_filter_le])
  then show ?thesis
    by blast
qed

lemma near_end_snoc:
  assumes "near_end e j es"
  shows "near_end e (Suc j) (es @ [x])"
proof -
  from assms obtain pre post where "es = pre @ e # post" and "length post \<le> j"
    by blast
  then have "es @ [x] = pre @ e # (post @ [x])" and "length (post @ [x]) \<le> Suc j"
    by simp_all
  then show ?thesis
    by blast
qed

lemma near_end_mono:
  assumes "near_end e j es" and "j \<le> j'"
  shows "near_end e j' es"
proof -
  from assms(1) obtain pre post where "es = pre @ e # post" and "length post \<le> j"
    by blast
  with assms(2) have "es = pre @ e # post \<and> length post \<le> j'"
    by simp
  then show ?thesis
    by blast
qed

lemma near_end_evict:
  assumes "near_end e j es" and "length es \<le> m" and "Suc j < m"
  shows "near_end e j (evict m es)"
proof (cases "length es < m")
  case True
  with assms(1) show ?thesis
    by (simp add: evict_fits)
next
  case False
  with assms(2) have full: "length es = m"
    by simp
  from assms(1) obtain pre post where es: "es = pre @ e # post" and post: "length post \<le> j"
    by blast
  with full assms(3) have "pre \<noteq> []"
    by auto
  then obtain x pre' where "pre = x # pre'"
    by (cases pre) simp_all
  with es full have "evict m es = pre' @ e # post"
    by (simp add: evict_drop)
  with post show ?thesis
    by blast
qed

lemma near_end_in: "near_end e j es \<Longrightarrow> e \<in> set es"
  by auto

lemma kept_setitem:
  assumes "invar c" and "near_end e j (entries c)" and "Suc j < maxsize c"
    and "key e \<noteq> k" and "now < expires e"
  shows "near_end e (Suc j) (entries (setitem now c k v))"
proof -
  let ?c1 = "expire now c"
  let ?new = "\<lparr>key = k, val = v, expires = now + ttl c\<rparr>"
  from assms(2,5) have 1: "near_end e j (entries ?c1)"
    unfolding expire_def by (simp del: append_eq_append_conv2) (intro near_end_filter, simp_all)
  from assms(1) have "invar ?c1"
    by (rule invar_expire)
  then have len: "length (entries ?c1) \<le> maxsize c"
    by (simp add: invar_def)
  show ?thesis
  proof (cases "lookup ?c1 k")
    case None
    then have e: "entries (setitem now c k v) =
        filter (\<lambda>x. key x \<noteq> k) (evict (maxsize c) (entries ?c1)) @ [?new]"
      by (simp add: setitem_def Let_def)
    from 1 len assms(3) have "near_end e j (evict (maxsize c) (entries ?c1))"
      by (rule near_end_evict)
    with assms(4) have "near_end e j (filter (\<lambda>x. key x \<noteq> k) (evict (maxsize c) (entries ?c1)))"
      by (intro near_end_filter) simp_all
    then show ?thesis
      unfolding e by (rule near_end_snoc)
  next
    case (Some x)
    then have e: "entries (setitem now c k v) =
        filter (\<lambda>x. key x \<noteq> k) (entries ?c1) @ [?new]"
      by (simp add: setitem_def Let_def)
    from 1 assms(4) have "near_end e j (filter (\<lambda>x. key x \<noteq> k) (entries ?c1))"
      by (intro near_end_filter) simp_all
    then show ?thesis
      unfolding e by (rule near_end_snoc)
  qed
qed

lemma kept_moved:
  assumes "invar c" and "near_end e j (entries c)" and "lookup c k = Some x"
  shows "near_end e (Suc j) (filter (\<lambda>y. key y \<noteq> k) (entries c) @ [x])"
proof (cases "key e = k")
  case False
  with assms(2) have "near_end e j (filter (\<lambda>y. key y \<noteq> k) (entries c))"
    by (intro near_end_filter) simp_all
  then show ?thesis
    by (rule near_end_snoc)
next
  case True
  from assms(1) have "distinct (map key (entries c))"
    by (simp add: invar_def)
  with near_end_in [OF assms(2)] have "find (\<lambda>x. key x = key e) (entries c) = Some e"
    by (intro lookup_unique)
  with True assms(3) have "x = e"
    by (simp add: lookup_def)
  then have "filter (\<lambda>y. key y \<noteq> k) (entries c) @ [x]
               = filter (\<lambda>y. key y \<noteq> k) (entries c) @ e # []"
    by simp
  then show ?thesis
    by (intro exI [of _ "filter (\<lambda>y. key y \<noteq> k) (entries c)"] exI [of _ "[]"]) simp
qed

lemma kept_body:
  assumes "invar c" and "near_end e j (entries c)" and "Suc j < maxsize c"
    and "at_in clk < expires e" and "at_set clk < expires e"
  shows "near_end e (Suc j)
           (entries (fst (snd (get_instagram_profile_body from_username clk c u))))"
proof (cases rule: body_cases [of clk c u from_username])
  case (hit x)
  with kept_moved [OF assms(1,2) hit(2)] show ?thesis
    by simp
next
  case (stale x)
  with assms(2) show ?thesis
    by (simp add: near_end_mono)
next
  case (error x)
  with assms(2) show ?thesis
    by (simp add: near_end_mono)
next
  case (fetched p)
  have "key e \<noteq> lower u"
  proof
    assume k: "key e = lower u"
    from assms(1) have "distinct (map key (entries c))"
      by (simp add: invar_def)
    with near_end_in [OF assms(2)] have "find (\<lambda>x. key x = key e) (entries c) = Some e"
      by (intro lookup_unique)
    with k assms(4) have "contains (at_in clk) c (lower u)"
      by (simp add: contains_def lookup_def)
    with fetched(1) show False
      by simp
  qed
  with assms fetched(4) show ?thesis
    by (simp add: kept_setitem)
qed

lemma kept_step:
  assumes "invar (profile_cache st)" and "near_end e j (entries (profile_cache st))"
    and "Suc j < maxsize (profile_cache st)" and "before (expires e) r"
  shows "near_end e (Suc j) (entries (profile_cache (step st r)))"
proof (cases r)
  case (Scrape from_username clk client u)
  with assms show ?thesis
    by (simp add: endpoint_cache kept_body near_end_mono)
next
  case (ProxyImage client_get url)
  with assms(2) show ?thesis
    by (simp add: near_end_mono)
next
  case (HealthCheck wall now)
  with assms(2,4) have "near_end e j (filter (\<lambda>x. now < expires x) (entries (profile_cache st)))"
    by (intro near_end_filter) simp_all
  with HealthCheck show ?thesis
    by (simp add: health_check_cache expire_def near_end_mono)
qed

lemma kept_foldl:
  assumes "invar (profile_cache st)" and "near_end e j (entries (profile_cache st))"
    and "j + length rs < maxsize (profile_cache st)"
    and "\<forall>r \<in> set rs. before (expires e) r"
  shows "near_end e (j + length rs) (entries (profile_cache (foldl step st rs)))"
  using assms
proof (induction rs arbitrary: st j)
  case Nil
  then show ?case
    by simp
next
  case (Cons r rs)
  have "near_end e (Suc j) (entries (profile_cache (step st r)))"
    using Cons.prems by (intro kept_step) simp_all
  moreover have "invar (profile_cache (step st r))"
    using Cons.prems(1) by (rule step_invar)
  moreover have "maxsize (profile_cache (step st r)) = maxsize (profile_cache st)"
    by (simp add: step_params)
  ultimately have "near_end e (Suc j + length rs)
                     (entries (profile_cache (foldl step (step st r) rs)))"
    using Cons.prems(3,4) by (intro Cons.IH) simp_all
  then show ?case
    by simp
qed

lemma first_fetch_entry:
  assumes "invar c" and "get_instagram_profile_body f1 clk1 c u1 = (Inr d, c1, q1)"
  shows "\<exists>e. lookup c1 (lower u1) = Some e \<and> val e = d \<and> key e = lower u1
           \<and> near_end e 0 (entries c1) \<and> invar c1
           \<and> (q1 \<noteq> [] \<longrightarrow> expires e = at_set clk1 + ttl c)
           \<and> length q1 \<le> 1"
proof (cases rule: body_cases [of clk1 c u1 f1])
  case (hit e)
  from hit(2) have k: "key e = lower u1"
    by (simp add: lookup_in)
  from hit(5) assms(2)
  have c1: "c1 = c\<lparr>entries := filter (\<lambda>x. key x \<noteq> lower u1) (entries c) @ [e]\<rparr>"
    and d: "val e = d" and q1: "q1 = []"
    by simp_all
  from k have "lookup c1 (lower u1) = Some e"
    unfolding c1 by (rule lookup_moved)
  moreover have "near_end e 0 (entries c1)"
    unfolding c1 by (intro exI [of _ "filter (\<lambda>x. key x \<noteq> lower u1) (entries c)"]
                           exI [of _ "[]"]) simp
  moreover have "invar c1"
    using body_cache_invar [OF assms(1), of f1 clk1 u1] assms(2) by simp
  ultimately show ?thesis
    using k d q1 by simp
next
  case (stale e)
  with assms(2) show ?thesis
    by simp
next
  case (error x)
  with assms(2) show ?thesis
    by simp
next
  case (fetched p)
  let ?e = "\<lparr>key = lower u1, val = d, expires = at_set clk1 + ttl c\<rparr>"
  from fetched(4) assms(2) have c1: "c1 = setitem (at_set clk1) c (lower u1) d"
    and q1: "q1 = [lower u1]"
    by auto
  have "lookup c1 (lower u1) = Some ?e"
    unfolding c1 by (rule lookup_setitem)
  moreover have "near_end ?e 0 (entries c1)"
    unfolding c1 by (simp add: setitem_def Let_def)
  moreover have "invar c1"
    unfolding c1 using assms(1) by (rule invar_setitem)
  ultimately show ?thesis
    using q1 by simp
qed

section \<open>Eviction between two fetches\<close>

text \<open>
  The service after a first fetch of \<^verbatim>\<open>nasa\<close> at time 0 and then the first \<open>n\<close> requests
  of the crowd: up to 999 of them the entry of \<^verbatim>\<open>nasa\<close> is still the oldest one of the
  cache, and the thousandth evicts it.
\<close>

lemma lower_a: "lower (replicate n (CHR ''a'')) = replicate n (CHR ''a'')"
proof -
  have "lower_char (CHR ''a'') = CHR ''a''"
    by code_simp
  then show ?thesis
    by (simp add: lower_def)
qed

lemma name_not_nasa: "replicate (Suc i) (CHR ''a'') \<noteq> ''nasa''"
  by simp

lemma name_not_client: "replicate (Suc i) (CHR ''a'') \<noteq> ''198.51.100.7''"
  by simp

lemma name_inj: "replicate (Suc i) (CHR ''a'') = replicate (Suc j) (CHR ''a'') \<longleftrightarrow> i = j"
  by (simp add: replicate_eq_replicate del: replicate_Suc)

lemma crowd_step:
  assumes k: "k = replicate (Suc n) (CHR ''a'')"
    and c: "maxsize (profile_cache st) = 1000" "ttl (profile_cache st) = 3600"
    and es: "entries (profile_cache st) = es"
    and live: "\<forall>x \<in> set es. 1 < expires x"
    and new: "k \<notin> key ` set es"
    and fresh: "limiter st k = None"
  shows "entries (profile_cache (step st (crowd_request n)))
           = evict 1000 es
             @ [\<lparr>key = k, val = profile_data_of (nasa_profile\<lparr>p_username := k\<rparr>),
                 expires = 3601\<rparr>]"
    and "maxsize (profile_cache (step st (crowd_request n))) = 1000"
    and "ttl (profile_cache (step st (crowd_request n))) = 3600"
    and "limiter (step st (crowd_request n)) k'
           = (if k' = k then Some \<lparr>window_start = 1, count = 1\<rparr> else limiter st k')"
proof -
  let ?p = "nasa_profile\<lparr>p_username := k\<rparr>"
  let ?clk = "all_at 1"
  have req: "crowd_request n = Scrape upstream_any ?clk k k"
    unfolding k by (simp only: crowd_request_def)
  have low: "lower k = k"
    unfolding k by (rule lower_a)
  have clk: "at_limit ?clk = 1" "at_in ?clk = 1" "at_set ?clk = 1"
    by (simp_all add: all_at_def)
  have h: "hit 1 (limiter st) k = (True, (limiter st)(k \<mapsto> \<lparr>window_start = 1, count = 1\<rparr>))"
    using fresh by (intro hit_fresh) simp
  from new es have nk: "k \<notin> key ` set (entries (profile_cache st))"
    by simp
  then have "lookup (profile_cache st) k = None"
    by (rule lookup_None_keys [THEN iffD2])
  then have miss: "\<not> contains (at_in ?clk) (profile_cache st) (lower k)"
    by (simp add: low contains_def)
  have up: "upstream_any (lower k) = Inr ?p"
    by (simp add: low upstream_any_def)
  have uid: "truthy (userid ?p)"
    by (simp add: nasa_profile_def)
  from body_miss_profile [where from_username = upstream_any and p = ?p, OF miss up] uid
  have body: "get_instagram_profile_body upstream_any ?clk (profile_cache st) k
          = (Inr (profile_data_of ?p),
             setitem 1 (profile_cache st) k (profile_data_of ?p), [k])"
    by (simp add: low clk)
  have step: "step st (crowd_request n)
          = \<lparr>profile_cache = setitem 1 (profile_cache st) k (profile_data_of ?p),
             limiter = (limiter st)(k \<mapsto> \<lparr>window_start = 1, count = 1\<rparr>)\<rparr>"
    using h body by (simp add: req endpoint_admitted clk)
  from live es have "filter (\<lambda>x. 1 < expires x) (entries (profile_cache st)) = es"
    by (simp add: filter_id_conv)
  with setitem_new_key [OF nk, of 1 "profile_data_of ?p"] c
  show "entries (profile_cache (step st (crowd_request n)))
           = evict 1000 es @ [\<lparr>key = k, val = profile_data_of ?p, expires = 3601\<rparr>]"
    by (simp add: step)
  from c show "maxsize (profile_cache (step st (crowd_request n))) = 1000"
    and "ttl (profile_cache (step st (crowd_request n))) = 3600"
    by (simp_all add: step)
  show "limiter (step st (crowd_request n)) k'
           = (if k' = k then Some \<lparr>window_start = 1, count = 1\<rparr> else limiter st k')"
    by (simp add: step)
qed

lemma first_fetch_state:
  "after_first
     = \<lparr>profile_cache = \<lparr>maxsize = 1000, ttl = 3600, entries = [nasa_entry]\<rparr>,
        limiter = [''198.51.100.7'' \<mapsto> \<lparr>window_start = 0, count = 1\<rparr>]\<rparr>"
proof -
  have "get_instagram_profile_body upstream_any (all_at 0) (TTLCache_new 1000 3600) ''nasa''
          = (Inr (profile_data_of (nasa_profile\<lparr>p_username := ''nasa''\<rparr>)),
             \<lparr>maxsize = 1000, ttl = 3600, entries = [nasa_entry]\<rparr>, [''nasa''])"
    by code_simp
  then show ?thesis
    by (simp add: after_first_def get_instagram_profile_def hit_def initial_state_def
                  all_at_def)
qed

lemma crowd_prefix:
  assumes "n \<le> 999"
  shows "entries (profile_cache
            (foldl step after_first (map crowd_request [0..<n])))
           = nasa_entry # map crowd_entry [0..<n]
       \<and> maxsize (profile_cache
            (foldl step after_first (map crowd_request [0..<n]))) = 1000
       \<and> ttl (profile_cache
            (foldl step after_first (map crowd_request [0..<n]))) = 3600
       \<and> (\<forall>j \<ge> n. limiter
            (foldl step after_first (map crowd_request [0..<n])) (replicate (Suc j) (CHR ''a'')) = None)
       \<and> limiter
            (foldl step after_first (map crowd_request [0..<n])) ''198.51.100.7''
           = Some \<lparr>window_start = 0, count = 1\<rparr>"
  using assms
proof (induction n)
  case 0
  show ?case
    by (simp add: first_fetch_state)
next
  case (Suc n)
  let ?st = "foldl step after_first (map crowd_request [0..<n])"
  let ?k = "replicate (Suc n) (CHR ''a'')"
  let ?es = "nasa_entry # map crowd_entry [0..<n]"
  from Suc have ih: "entries (profile_cache ?st) = ?es"
    "maxsize (profile_cache ?st) = 1000" "ttl (profile_cache ?st) = 3600"
    "\<forall>j \<ge> n. limiter ?st (replicate (Suc j) (CHR ''a'')) = None"
    "limiter ?st ''198.51.100.7'' = Some \<lparr>window_start = 0, count = 1\<rparr>"
    by simp_all
  have live: "\<forall>x \<in> set ?es. 1 < expires x"
    by (auto simp: nasa_entry_def crowd_entry_def)
  have "key ` set ?es = insert ''nasa'' ((\<lambda>i. replicate (Suc i) (CHR ''a'')) ` {0..<n})"
    by (auto simp: nasa_entry_def crowd_entry_def image_iff)
  then have new: "?k \<notin> key ` set ?es"
    using name_not_nasa [of n] by (auto simp: name_inj simp del: replicate_Suc)
  from ih(4) have fresh: "limiter ?st ?k = None"
    by simp
  note cs = crowd_step [OF refl ih(2,3,1) live new fresh]
  have fits: "evict 1000 ?es = ?es"
    using Suc.prems by (intro evict_fits) simp
  have step: "foldl step after_first (map crowd_request [0..<Suc n]) = step ?st (crowd_request n)"
    by simp
  have "entries (profile_cache (step ?st (crowd_request n)))
          = nasa_entry # map crowd_entry [0..<Suc n]"
    using cs(1) [unfolded fits] by (simp add: crowd_entry_def del: replicate_Suc evict.simps)
  moreover have "\<forall>j \<ge> Suc n. limiter (step ?st (crowd_request n))
                                (replicate (Suc j) (CHR ''a'')) = None"
    using ih(4) by (simp add: cs(4) name_inj del: replicate_Suc)
  moreover have "limiter (step ?st (crowd_request n)) ''198.51.100.7''
                   = Some \<lparr>window_start = 0, count = 1\<rparr>"
    using ih(5) name_not_client [of n, symmetric] by (simp add: cs(4) del: replicate_Suc)
  ultimately show ?case
    unfolding step using cs(2,3) by simp
qed

lemma crowd_state:
  shows "entries (profile_cache
      (serve (Scrape upstream_any (all_at 0) ''198.51.100.7'' ''nasa'' # crowd)))
     = map crowd_entry [0..<1000]"
    and "limiter (serve (Scrape upstream_any (all_at 0) ''198.51.100.7'' ''nasa'' # crowd))
         ''198.51.100.7'' = Some \<lparr>window_start = 0, count = 1\<rparr>"
proof -
  let ?st = "foldl step after_first (map crowd_request [0..<999])"
  let ?k = "replicate (Suc 999) (CHR ''a'')"
  let ?es = "nasa_entry # map crowd_entry [0..<999]"
  from crowd_prefix [of 999] have ih: "entries (profile_cache ?st) = ?es"
    "maxsize (profile_cache ?st) = 1000" "ttl (profile_cache ?st) = 3600"
    "\<forall>j \<ge> 999. limiter ?st (replicate (Suc j) (CHR ''a'')) = None"
    "limiter ?st ''198.51.100.7'' = Some \<lparr>window_start = 0, count = 1\<rparr>"
    by (simp_all del: replicate_Suc)
  have live: "\<forall>x \<in> set ?es. 1 < expires x"
    by (auto simp: nasa_entry_def crowd_entry_def)
  have "key ` set ?es = insert ''nasa'' ((\<lambda>i. replicate (Suc i) (CHR ''a'')) ` {0..<999})"
    by (auto simp: nasa_entry_def crowd_entry_def image_iff)
  then have new: "?k \<notin> key ` set ?es"
    using name_not_nasa [of 999] by (auto simp: name_inj simp del: replicate_Suc)
  from ih(4) [rule_format, of 999] have fresh: "limiter ?st ?k = None"
    by (simp del: replicate_Suc)
  note cs = crowd_step [OF refl ih(2,3,1) live new fresh]
  have "[0..<1000] = [0..<999] @ [999::nat]"
    using upt_Suc_append [of 0 999] by simp
  then have serve: "serve (Scrape upstream_any (all_at 0) ''198.51.100.7'' ''nasa'' # crowd)
                 = step ?st (crowd_request 999)"
    by (simp add: serve_def crowd_def after_first_def del: step.simps upt_Suc)
  have ev: "evict 1000 ?es = map crowd_entry [0..<999]"
    by (simp add: evict_drop del: evict.simps)
  from cs(1) [unfolded ev] have "entries (profile_cache (step ?st (crowd_request 999)))
          = map crowd_entry [0..<999] @ [crowd_entry 999]"
    by (simp add: crowd_entry_def del: replicate_Suc evict.simps)
  then show "entries (profile_cache
      (serve (Scrape upstream_any (all_at 0) ''198.51.100.7'' ''nasa'' # crowd)))
     = map crowd_entry [0..<1000]"
    unfolding serve using \<open>[0..<1000] = [0..<999] @ [999::nat]\<close> by simp
  show "limiter (serve (Scrape upstream_any (all_at 0) ''198.51.100.7'' ''nasa'' # crowd))
         ''198.51.100.7'' = Some \<lparr>window_start = 0, count = 1\<rparr>"
    unfolding serve using ih(5) name_not_client [of 999, symmetric]
    by (simp add: cs(4) del: replicate_Suc)
qed

text \<open>
  The claim that two successful fetches of a username within the hour ask the upstream at
  most once fails when the cache is under pressure: after a fetch of \<^verbatim>\<open>nasa\<close> at time 0
  and a thousand fetches of other usernames at time 1, the entry of \<^verbatim>\<open>nasa\<close> has been
  evicted, and a second fetch of \<^verbatim>\<open>nasa\<close> at time 2 asks the upstream again.
\<close>

theorem C4_eviction_counterexample:
  "fst (get_instagram_profile upstream_any (all_at 0) ''198.51.100.7'' initial_state ''nasa'')
     = Inr (profile_data_of (nasa_profile\<lparr>p_username := ''nasa''\<rparr>))
   \<and> snd (snd (get_instagram_profile upstream_any (all_at 0) ''198.51.100.7'' initial_state
                  ''nasa'')) = [''nasa'']
   \<and> fst (get_instagram_profile upstream_any (all_at 2) ''198.51.100.7''
            (serve (Scrape upstream_any (all_at 0) ''198.51.100.7'' ''nasa'' # crowd)) ''nasa'')
     = Inr (profile_data_of (nasa_profile\<lparr>p_username := ''nasa''\<rparr>))
   \<and> snd (snd (get_instagram_profile upstream_any (all_at 2) ''198.51.100.7''
                  (serve (Scrape upstream_any (all_at 0) ''198.51.100.7'' ''nasa'' # crowd))
                  ''nasa'')) = [''nasa'']"
proof -
  let ?S = "serve (Scrape upstream_any (all_at 0) ''198.51.100.7'' ''nasa'' # crowd)"
  let ?p = "nasa_profile\<lparr>p_username := ''nasa''\<rparr>"
  have first: "fst (get_instagram_profile upstream_any (all_at 0) ''198.51.100.7'' initial_state
                      ''nasa'') = Inr (profile_data_of ?p)
    \<and> snd (snd (get_instagram_profile upstream_any (all_at 0) ''198.51.100.7'' initial_state
                   ''nasa'')) = [''nasa'']"
    by code_simp
  have low: "lower ''nasa'' = ''nasa''"
    by code_simp
  have clk: "at_limit (all_at 2) = 2" "at_in (all_at 2) = 2"
    by (simp_all add: all_at_def)
  have adm: "fst (hit (at_limit (all_at 2)) (limiter ?S) ''198.51.100.7'')"
    using crowd_state(2) by (simp add: hit_def clk limit_period_def limit_amount_def)
  have "''nasa'' \<notin> key ` set (entries (profile_cache ?S))"
    by (auto simp: crowd_state(1) crowd_entry_def)
  then have "lookup (profile_cache ?S) ''nasa'' = None"
    by (rule lookup_None_keys [THEN iffD2])
  then have miss: "\<not> contains (at_in (all_at 2)) (profile_cache ?S) (lower ''nasa'')"
    by (simp add: low contains_def)
  have up: "upstream_any (lower ''nasa'') = Inr ?p"
    by (simp add: low upstream_any_def)
  have uid: "truthy (userid ?p)"
    by (simp add: nasa_profile_def)
  from body_miss_profile [where from_username = upstream_any and p = ?p, OF miss up] uid
  have "fst (get_instagram_profile_body upstream_any (all_at 2) (profile_cache ?S) ''nasa'')
          = Inr (profile_data_of ?p)
        \<and> snd (snd (get_instagram_profile_body upstream_any (all_at 2) (profile_cache ?S)
                       ''nasa'')) = [''nasa'']"
    by (simp add: low)
  with adm have "fst (get_instagram_profile upstream_any (all_at 2) ''198.51.100.7'' ?S ''nasa'')
          = Inr (profile_data_of ?p)
        \<and> snd (snd (get_instagram_profile upstream_any (all_at 2) ''198.51.100.7'' ?S
                       ''nasa'')) = [''nasa'']"
    by (simp add: endpoint_admitted)
  with first show ?thesis
    by blast
qed

text \<open>
  C4, as amended. Let a fetch of \<open>u1\<close> succeed with the record \<open>d\<close> on a well-formed cache
  with the service's capacity and TTL, and let \<open>e\<close> be the entry of the username in the cache
  afterwards: its value is \<open>d\<close>, and if the fetch asked the upstream it expires one hour
  after the store. Let the service then serve fewer than 1000 requests of any kind, each
  before \<open>e\<close> expires, and let a second fetch of the same username (up to letter case) test
  and read the cache before \<open>e\<close> expires. Then the second fetch returns \<open>d\<close> without asking
  the upstream, whatever the upstream would answer by then, so the two fetches ask the
  upstream at most once in all. In general, a request that finds the username in the cache does
  not ask the upstream.
\<close>

theorem C4_refetch_within_window:
  assumes "invar c" and "maxsize c = 1000" and "ttl c = 3600"
    and "get_instagram_profile_body f1 clk1 c u1 = (Inr d, c1, q1)"
    and "lookup c1 (lower u1) = Some e"
    and "profile_cache st1 = c1"
    and "length rs < 1000"
    and "\<forall>r \<in> set rs. before (expires e) r"
    and "lower u2 = lower u1"
    and "at_in clk2 < expires e" and "at_get clk2 < expires e"
  shows "fst (get_instagram_profile_body f2 clk2 (profile_cache (foldl step st1 rs)) u2) = Inr d
     \<and> snd (snd (get_instagram_profile_body f2 clk2 (profile_cache (foldl step st1 rs)) u2)) = []
     \<and> length (q1 @ snd (snd (get_instagram_profile_body f2 clk2
                                 (profile_cache (foldl step st1 rs)) u2))) \<le> 1
     \<and> val e = d
     \<and> (q1 \<noteq> [] \<longrightarrow> expires e = at_set clk1 + 3600)
     \<and> (contains (at_in clk3) c3 (lower u3) \<longrightarrow>
          snd (snd (get_instagram_profile_body f3 clk3 c3 u3)) = [])"
proof -
  let ?c2 = "profile_cache (foldl step st1 rs)"
  from first_fetch_entry [OF assms(1,4)] assms(5,3)
  have d: "val e = d" and k: "key e = lower u1" and near: "near_end e 0 (entries c1)"
    and inv1: "invar c1" and exp: "q1 \<noteq> [] \<longrightarrow> expires e = at_set clk1 + 3600"
    and q1: "length q1 \<le> 1"
    by auto
  from body_cache_params [of f1 clk1 c u1] assms(2,4) have m: "maxsize c1 = 1000"
    by simp
  from inv1 assms(6) have inv: "invar (profile_cache st1)"
    by simp
  then have inv2: "invar ?c2"
    by (rule foldl_step_invar)
  from near assms(6) have "near_end e 0 (entries (profile_cache st1))"
    by simp
  with inv have "near_end e (0 + length rs) (entries ?c2)"
    using assms(6,7,8) m by (intro kept_foldl) simp_all
  then have "e \<in> set (entries ?c2)"
    by (rule near_end_in)
  moreover from inv2 have "distinct (map key (entries ?c2))"
    by (simp add: invar_def)
  ultimately have "find (\<lambda>x. key x = key e) (entries ?c2) = Some e"
    by (intro lookup_unique)
  with k assms(9) have l: "lookup ?c2 (lower u2) = Some e"
    by (simp add: lookup_def)
  with assms(10) have "contains (at_in clk2) ?c2 (lower u2)"
    by (simp add: contains_def)
  from body_hit [OF this, of f2] l assms(11) d
  have 2: "fst (get_instagram_profile_body f2 clk2 ?c2 u2) = Inr d
     \<and> snd (snd (get_instagram_profile_body f2 clk2 ?c2 u2)) = []"
    by auto
  have 3: "contains (at_in clk3) c3 (lower u3) \<longrightarrow>
          snd (snd (get_instagram_profile_body f3 clk3 c3 u3)) = []"
    by (simp add: body_queries)
  from 2 q1 d exp 3 show ?thesis
    by simp
qed

theorem C4_refetch_within_window_witness:
  "invar (TTLCache_new 1000 3600)
   \<and> get_instagram_profile_body upstream_nasa (all_at 0) (TTLCache_new 1000 3600) ''NASA''
       = (Inr (profile_data_of nasa_profile),
          \<lparr>maxsize = 1000, ttl = 3600,
           entries = [\<lparr>key = ''nasa'', val = profile_data_of nasa_profile, expires = 3600\<rparr>]\<rparr>,
          [''nasa''])
   \<and> lookup \<lparr>maxsize = 1000, ttl = 3600,
              entries = [\<lparr>key = ''nasa'', val = profile_data_of nasa_profile, expires = 3600\<rparr>]\<rparr>
         (lower ''NASA'')
       = Some \<lparr>key = ''nasa'', val = profile_data_of nasa_profile, expires = 3600\<rparr>
   \<and> length burst_rest < 1000
   \<and> lower ''nasa'' = lower ''NASA''
   \<and> fst (get_instagram_profile_body upstream_down (all_at 3599)
            (profile_cache
               (foldl step
                  \<lparr>profile_cache =
                     \<lparr>maxsize = 1000, ttl = 3600,
                      entries = [\<lparr>key = ''nasa'', val = profile_data_of nasa_profile,
                                  expires = 3600\<rparr>]\<rparr>,
                   limiter = Map.empty\<rparr>
                  burst_rest))
            ''nasa'')
       = Inr (profile_data_of nasa_profile)
   \<and> snd (snd (get_instagram_profile_body upstream_down (all_at 3599)
            (profile_cache
               (foldl step
                  \<lparr>profile_cache =
                     \<lparr>maxsize = 1000, ttl = 3600,
                      entries = [\<lparr>key = ''nasa'', val = profile_data_of nasa_profile,
                                  expires = 3600\<rparr>]\<rparr>,
                   limiter = Map.empty\<rparr>
                  burst_rest))
            ''nasa'')) = []"
proof -
  let ?e = "\<lparr>key = ''nasa'', val = profile_data_of nasa_profile, expires = 3600\<rparr>"
  let ?c1 = "\<lparr>maxsize = 1000, ttl = 3600, entries = [?e]\<rparr>"
  let ?st1 = "\<lparr>profile_cache = ?c1, limiter = Map.empty\<rparr>"
  have inv: "invar (TTLCache_new 1000 3600)"
    and m: "maxsize (TTLCache_new 1000 3600) = 1000"
    and t: "ttl (TTLCache_new 1000 3600) = 3600"
    by (simp_all add: invar_def TTLCache_new_def)
  have first: "get_instagram_profile_body upstream_nasa (all_at 0) (TTLCache_new 1000 3600) ''NASA''
       = (Inr (profile_data_of nasa_profile), ?c1, [''nasa''])"
    by code_simp
  have l: "lower ''NASA'' = ''nasa''"
    by code_simp
  have e: "lookup ?c1 (lower ''NASA'') = Some ?e"
    by (simp add: l lookup_def)
  have st: "profile_cache ?st1 = ?c1"
    by simp
  have few: "length burst_rest < 1000"
    by (simp add: burst_rest_def)
  have early: "\<forall>r \<in> set burst_rest. before (expires ?e) r"
    by (simp add: burst_rest_def all_at_def)
  have same: "lower ''nasa'' = lower ''NASA''"
    by code_simp
  have t2: "at_in (all_at 3599) < expires ?e" "at_get (all_at 3599) < expires ?e"
    by (simp_all add: all_at_def)
  from C4_refetch_within_window [OF inv m t first e st few early same t2, of upstream_down]
  have "fst (get_instagram_profile_body upstream_down (all_at 3599)
               (profile_cache (foldl step ?st1 burst_rest)) ''nasa'')
          = Inr (profile_data_of nasa_profile)
        \<and> snd (snd (get_instagram_profile_body upstream_down (all_at 3599)
               (profile_cache (foldl step ?st1 burst_rest)) ''nasa'')) = []"
    by simp
  with inv first e few same show ?thesis
    by simp
qed

end
